theory Spec2Isabelle
  imports Main
begin

section \<open>Python strings\<close>

text \<open>
  A Python \<open>str\<close> is a sequence of Unicode code points. It is modelled as a list of
  natural numbers, one per code point, so that the whitespace class of Python
  (\<open>str.isspace\<close>, which is also what \<open>\s\<close> matches in a \<open>str\<close> pattern and what
  \<open>str.strip()\<close> and \<open>str.split()\<close> remove) can be written out in full, beyond ASCII.
  \<open>str\<close> embeds an ASCII literal.
\<close>

type_synonym pystr = "nat list"

definition str :: "string \<Rightarrow> pystr" where
  "str s = map of_char s"

definition is_space :: "nat \<Rightarrow> bool" where
  "is_space c \<longleftrightarrow>
     (9 \<le> c \<and> c \<le> 13) \<or> (28 \<le> c \<and> c \<le> 32) \<or> c = 133 \<or> c = 160 \<or> c = 5760 \<or>
     (8192 \<le> c \<and> c \<le> 8202) \<or> c = 8232 \<or> c = 8233 \<or> c = 8239 \<or> c = 8287 \<or> c = 12288"

text \<open>\<open>sep.join(xs)\<close>.\<close>

fun py_join :: "pystr \<Rightarrow> pystr list \<Rightarrow> pystr" where
  "py_join sep [] = []"
| "py_join sep [x] = x"
| "py_join sep (x # y # ys) = x @ sep @ py_join sep (y # ys)"

text \<open>
  \<open>s.split()\<close> with no argument: the maximal runs of non-whitespace characters, in order;
  no empty string is ever produced. \<open>split_from w cs\<close> scans \<open>cs\<close> with the word \<open>w\<close> read
  so far.
\<close>

fun split_from :: "pystr \<Rightarrow> pystr \<Rightarrow> pystr list" where
  "split_from w [] = (if w = [] then [] else [w])"
| "split_from w (c # cs) =
     (if is_space c then (if w = [] then split_from [] cs else w # split_from [] cs)
      else split_from (w @ [c]) cs)"

definition py_split :: "pystr \<Rightarrow> pystr list" where
  "py_split s = split_from [] s"

text \<open>\<open>s.strip()\<close> with no argument: leading and trailing whitespace removed.\<close>

definition py_strip :: "pystr \<Rightarrow> pystr" where
  "py_strip s = rev (dropWhile is_space (rev (dropWhile is_space s)))"

text \<open>\<open>s.replace(old, new)\<close> for a pattern \<open>old\<close> of one character.\<close>

definition py_replace_char :: "nat \<Rightarrow> pystr \<Rightarrow> pystr \<Rightarrow> pystr" where
  "py_replace_char old new s = concat (map (\<lambda>c. if c = old then new else [c]) s)"

section \<open>The collaborators\<close>

text \<open>
  Every call into the model can raise; an exception is a value. \<open>AttributeError\<close> is what
  \<open>text.replace\<close> raises on a cell that is not a string, \<open>FileNotFoundError\<close> is raised by
  \<open>main\<close> itself, and \<open>ModelError\<close> stands for whatever the tokenizer or the encoder raise.
\<close>

datatype exn = AttributeError | FileNotFoundError | ModelError

text \<open>
  \<open>model.tokenizer\<close>: its configured \<open>model_max_length\<close> and the outcome of calling it on
  a text (the value it returns is never used).
\<close>

record hf_tokenizer =
  model_max_length :: int
  tokenizer_call :: "pystr \<Rightarrow> exn + unit"

text \<open>
  The \<open>SentenceTransformer\<close>. \<open>tokenize model s\<close> is \<open>len(model.tokenize(s)["input_ids"])\<close>,
  the only use the program makes of \<open>model.tokenize\<close>; \<open>encode model s\<close> is
  \<open>model.encode(s)\<close>, a vector of type \<open>'v\<close>.
\<close>

record 'v sentence_transformer =
  tokenize :: "pystr \<Rightarrow> exn + nat"
  encode :: "pystr \<Rightarrow> exn + 'v"
  tokenizer :: hf_tokenizer

section \<open>The word-level splitter\<close>

text \<open>
  The state of the loop of \<open>split_long_sentence\<close> is \<open>(parts, current_part, current_len)\<close>;
  \<open>split_step\<close> is the loop body for one word.
\<close>

type_synonym chunk_state = "pystr list \<times> pystr list \<times> nat"

fun split_step :: "'v sentence_transformer \<Rightarrow> int \<Rightarrow> chunk_state \<Rightarrow> pystr \<Rightarrow> exn + chunk_state" where
  "split_step model max_tokens (parts, current_part, current_len) word =
     (case tokenize model word of
        Inl e \<Rightarrow> Inl e
      | Inr seq_len \<Rightarrow>
          (let (parts, current_part, current_len) =
                 (if int (current_len + seq_len) > max_tokens
                  then (parts @ [py_join (str '' '') current_part], [], 0)
                  else (parts, current_part, current_len))
           in Inr (parts, current_part @ [word], current_len + seq_len)))"

fun split_loop :: "'v sentence_transformer \<Rightarrow> int \<Rightarrow> pystr list \<Rightarrow> chunk_state \<Rightarrow> exn + chunk_state" where
  "split_loop model max_tokens [] st = Inr st"
| "split_loop model max_tokens (word # words) st =
     (case split_step model max_tokens st word of
        Inl e \<Rightarrow> Inl e
      | Inr st' \<Rightarrow> split_loop model max_tokens words st')"

definition split_long_sentence :: "pystr \<Rightarrow> int \<Rightarrow> 'v sentence_transformer \<Rightarrow> exn + pystr list" where
  "split_long_sentence sentence max_tokens model =
     (case split_loop model max_tokens (py_split sentence) ([], [], 0) of
        Inl e \<Rightarrow> Inl e
      | Inr (parts, current_part, current_len) \<Rightarrow>
          Inr (if current_part \<noteq> [] then parts @ [py_join (str '' '') current_part] else parts))"

section \<open>The token-bounded chunker\<close>

text \<open>
  The state of the loop of \<open>chunk_sentences\<close> is \<open>(output, current_chunk, chunk_len)\<close>;
  \<open>chunk_step\<close> is the loop body for one sentence. The append of the sentence to
  \<open>current_chunk\<close> stands after the \<open>if\<close>, so it runs on every path.
\<close>

fun chunk_step :: "'v sentence_transformer \<Rightarrow> int \<Rightarrow> chunk_state \<Rightarrow> pystr \<Rightarrow> exn + chunk_state" where
  "chunk_step model max_tokens (output, current_chunk, chunk_len) sentence =
     (case tokenize model sentence of
        Inl e \<Rightarrow> Inl e
      | Inr seq_len \<Rightarrow>
          (case (if int (chunk_len + seq_len) > max_tokens
                 then (if length current_chunk = 0
                       then (case split_long_sentence sentence max_tokens model of
                               Inl e \<Rightarrow> Inl e
                             | Inr parts \<Rightarrow> Inr (output @ parts, current_chunk, chunk_len))
                       else Inr (output @ [py_join (str '' '') current_chunk], [], 0))
                 else Inr (output, current_chunk, chunk_len)) of
             Inl e \<Rightarrow> Inl e
           | Inr (output, current_chunk, chunk_len) \<Rightarrow>
               Inr (output, current_chunk @ [sentence], chunk_len + seq_len)))"

fun chunk_loop :: "'v sentence_transformer \<Rightarrow> int \<Rightarrow> pystr list \<Rightarrow> chunk_state \<Rightarrow> exn + chunk_state" where
  "chunk_loop model max_tokens [] st = Inr st"
| "chunk_loop model max_tokens (sentence # sentences) st =
     (case chunk_step model max_tokens st sentence of
        Inl e \<Rightarrow> Inl e
      | Inr st' \<Rightarrow> chunk_loop model max_tokens sentences st')"

definition chunk_sentences :: "pystr list \<Rightarrow> int \<Rightarrow> 'v sentence_transformer \<Rightarrow> exn + pystr list" where
  "chunk_sentences sentences max_tokens model =
     (case chunk_loop model max_tokens sentences ([], [], 0) of
        Inl e \<Rightarrow> Inl e
      | Inr (output, current_chunk, chunk_len) \<Rightarrow>
          Inr (if current_chunk \<noteq> [] then output @ [py_join (str '' '') current_chunk] else output))"

section \<open>Text normalisation and sentence splitting\<close>

definition is_punct :: "nat \<Rightarrow> bool" where
  "is_punct c \<longleftrightarrow> c \<in> set (str ''.,!?;:'')"

definition is_terminal :: "nat \<Rightarrow> bool" where
  "is_terminal c \<longleftrightarrow> c \<in> set (str ''.!?'')"

text \<open>
  \<open>re.sub(r'\s+', ' ', text)\<close>: every maximal run of whitespace becomes one space.
\<close>

function sub_spaces :: "pystr \<Rightarrow> pystr" where
  "sub_spaces [] = []"
| "sub_spaces (c # cs) =
     (if is_space c then str '' '' @ sub_spaces (dropWhile is_space cs)
      else c # sub_spaces cs)"
  by pat_completeness auto
termination
  by (relation "measure length") (simp_all add: le_imp_less_Suc length_dropWhile_le)

text \<open>
  \<open>re.sub(r'\s+([.,!?;:])', r'\1', text)\<close>. The scan goes from left to right. At a
  whitespace character the greedy \<open>\s+\<close> takes the whole run; the match succeeds when a
  punctuation mark follows the run, and then run and mark are replaced by the mark and
  the scan goes on after the mark. Otherwise no shorter run can match either (what
  follows a shorter run is whitespace), so the run is copied unchanged.
\<close>

function sub_space_punct :: "pystr \<Rightarrow> pystr" where
  "sub_space_punct [] = []"
| "sub_space_punct (c # cs) =
     (if is_space c
      then (case dropWhile is_space cs of
              [] \<Rightarrow> c # takeWhile is_space cs
            | p # rest \<Rightarrow>
                if is_punct p then p # sub_space_punct rest
                else (c # takeWhile is_space cs) @ p # sub_space_punct rest)
      else c # sub_space_punct cs)"
  by pat_completeness auto
termination
proof (relation "measure length", goal_cases)
  case 1
  show ?case by simp
next
  case (2 c cs p rest)
  then have "length rest < length (dropWhile is_space cs)" by simp
  also have "\<dots> \<le> length cs" by (rule length_dropWhile_le)
  finally show ?case by simp
next
  case (3 c cs p rest)
  then have "length rest < length (dropWhile is_space cs)" by simp
  also have "\<dots> \<le> length cs" by (rule length_dropWhile_le)
  finally show ?case by simp
next
  case (4 c cs)
  show ?case by simp
qed

text \<open>
  \<open>re.sub(r'([.,!?;:])\s+', r'\1 ', text)\<close>: a punctuation mark and the whole run of
  whitespace after it become the mark and one space.
\<close>

function sub_punct_space :: "pystr \<Rightarrow> pystr" where
  "sub_punct_space [] = []"
| "sub_punct_space [c] = [c]"
| "sub_punct_space (c # d # cs) =
     (if is_punct c \<and> is_space d
      then c # str '' '' @ sub_punct_space (dropWhile is_space cs)
      else c # sub_punct_space (d # cs))"
  by pat_completeness auto
termination
  by (relation "measure length") (simp_all add: le_imp_less_Suc length_dropWhile_le less_Suc_eq_le le_SucI)

definition clean_whitespace :: "pystr \<Rightarrow> pystr" where
  "clean_whitespace text =
     (let text = py_replace_char 10 (str '' '') text;
          text = sub_spaces text;
          text = sub_space_punct text;
          text = sub_punct_space text
      in py_strip text)"

text \<open>
  \<open>re.findall(r'[^.!?]*[.!?]', text)\<close>: the matches are the spans that end at each
  terminal mark and start after the previous one; what follows the last terminal mark
  matches nothing. \<open>findall_from acc cs\<close> scans \<open>cs\<close> with the span \<open>acc\<close> read so far.
\<close>

fun findall_from :: "pystr \<Rightarrow> pystr \<Rightarrow> pystr list" where
  "findall_from acc [] = []"
| "findall_from acc (c # cs) =
     (if is_terminal c then (acc @ [c]) # findall_from [] cs
      else findall_from (acc @ [c]) cs)"

definition simple_sentencize :: "pystr \<Rightarrow> pystr list" where
  "simple_sentencize text =
     (let sentences = findall_from [] text
      in map py_strip (filter (\<lambda>sentence. py_strip sentence \<noteq> []) sentences))"

section \<open>The token budget\<close>

definition find_max_tokens :: "hf_tokenizer \<Rightarrow> int" where
  "find_max_tokens tk =
     (let max_length = model_max_length tk;
          max_length = (if max_length > 9000 then 510 else max_length)
      in case tokenizer_call tk (str ''This is a test sentence.'') of
           Inl e \<Rightarrow> 510
         | Inr r \<Rightarrow> max_length)"

section \<open>The output directory\<close>

text \<open>
  \<open>hashlib.sha256(prompt.encode()).hexdigest()\<close> is a parameter, \<open>sha256_hex\<close>: the
  digest of a prompt as 64 hexadecimal digits.
\<close>

definition hash_prompt :: "(pystr \<Rightarrow> pystr) \<Rightarrow> pystr \<Rightarrow> pystr" where
  "hash_prompt sha256_hex prompt = take 8 (sha256_hex prompt)"

text \<open>
  The name of the output directory under \<open>output_dir\<close>. \<open>prefix_description\<close> is
  \<open>None\<close> when the option is not given; Python's truth test also takes the empty string
  for absent.
\<close>

definition output_name :: "(pystr \<Rightarrow> pystr) \<Rightarrow> pystr \<Rightarrow> pystr \<Rightarrow> pystr option \<Rightarrow> pystr" where
  "output_name sha256_hex model_name prefix prefix_description =
     (let mname = py_replace_char 47 (str ''__'') model_name
      in if prefix \<noteq> []
         then (case prefix_description of
                 Some d \<Rightarrow>
                   if d \<noteq> [] then str ''emb__'' @ mname @ str ''_'' @ d
                   else str ''emb__'' @ mname @ str ''_'' @ hash_prompt sha256_hex prefix
               | None \<Rightarrow> str ''emb__'' @ mname @ str ''_'' @ hash_prompt sha256_hex prefix)
         else str ''emb__'' @ mname)"

section \<open>The batch orchestrator\<close>

text \<open>The string handed to \<open>model.encode\<close> for a chunk.\<close>

definition chunk_input :: "pystr \<Rightarrow> pystr \<Rightarrow> pystr" where
  "chunk_input prefix chunk = (if prefix \<noteq> [] then prefix @ str '' '' @ chunk else chunk)"

text \<open>The inference loop over the chunks of one article; the first exception ends it.\<close>

fun embed_loop :: "'v sentence_transformer \<Rightarrow> pystr \<Rightarrow> pystr list \<Rightarrow> 'v list \<Rightarrow> exn + 'v list" where
  "embed_loop model prefix [] embeddings = Inr embeddings"
| "embed_loop model prefix (chunk # chunks) embeddings =
     (case encode model (chunk_input prefix chunk) of
        Inl e \<Rightarrow> Inl e
      | Inr emb \<Rightarrow> embed_loop model prefix chunks (embeddings @ [emb]))"

text \<open>
  The preprocessing stage. The \<open>text\<close> cell of a row is \<open>Some\<close> string, or \<open>None\<close> for a
  cell that holds no string (a missing value), on which \<open>text.replace\<close> raises.
\<close>

definition preprocess :: "'v sentence_transformer \<Rightarrow> int \<Rightarrow> pystr option \<Rightarrow> exn + pystr list" where
  "preprocess model max_tokens text =
     (case text of
        None \<Rightarrow> Inl AttributeError
      | Some t \<Rightarrow>
          (let text_clean = clean_whitespace t;
               sentences = simple_sentencize text_clean
           in chunk_sentences sentences max_tokens model))"

record 'v processed_article =
  article_id :: pystr
  chunk :: "pystr list"
  embedding :: "'v list"

text \<open>
  The loop over the rows \<open>(article_id, text)\<close> of the table, with the list
  \<open>processed_articles\<close> built so far. Each \<open>except\<close> clause logs and continues with the
  next row. \<open>py_str\<close> is \<open>str\<close> on an article id. The conversion of an embedding to a
  list of floats keeps its values, so the embedding is stored as the encoder returned it.
\<close>

fun main_loop ::
  "('i \<Rightarrow> pystr) \<Rightarrow> 'v sentence_transformer \<Rightarrow> int \<Rightarrow> pystr \<Rightarrow> ('i \<times> pystr option) list \<Rightarrow>
   'v processed_article list \<Rightarrow> 'v processed_article list" where
  "main_loop py_str model max_tokens prefix [] processed_articles = processed_articles"
| "main_loop py_str model max_tokens prefix ((aid, text) # rows) processed_articles =
     (case preprocess model max_tokens text of
        Inl e \<Rightarrow> main_loop py_str model max_tokens prefix rows processed_articles
      | Inr chunks \<Rightarrow>
          (case embed_loop model prefix chunks [] of
             Inl e \<Rightarrow> main_loop py_str model max_tokens prefix rows processed_articles
           | Inr embeddings \<Rightarrow>
               main_loop py_str model max_tokens prefix rows
                 (processed_articles @
                  [\<lparr>article_id = py_str aid, chunk = chunks, embedding = embeddings\<rparr>])))"

text \<open>
  \<open>main\<close>, from the loaded model on. \<open>input_csv\<close> is \<open>None\<close> when the file does not exist
  and the rows of the table otherwise. The result is the output path, as the pair of
  \<open>output_dir\<close> and the directory name under it, with the dataset saved there.
\<close>

definition main ::
  "(pystr \<Rightarrow> pystr) \<Rightarrow> ('i \<Rightarrow> pystr) \<Rightarrow> 'v sentence_transformer \<Rightarrow> ('i \<times> pystr option) list option \<Rightarrow>
   'd \<Rightarrow> pystr \<Rightarrow> pystr \<Rightarrow> pystr option \<Rightarrow> exn + (('d \<times> pystr) \<times> 'v processed_article list)" where
  "main sha256_hex py_str model input_csv output_dir model_name prefix prefix_description =
     (let max_tokens = find_max_tokens (tokenizer model);
          output_path = (output_dir, output_name sha256_hex model_name prefix prefix_description)
      in case input_csv of
           None \<Rightarrow> Inl FileNotFoundError
         | Some df \<Rightarrow> Inr (output_path, main_loop py_str model max_tokens prefix df []))"

section \<open>Collaborators used in the examples\<close>

text \<open>A tokenizer with one token per character and no special tokens.\<close>

definition char_count_model :: "unit sentence_transformer" where
  "char_count_model =
     \<lparr>tokenize = (\<lambda>s. Inr (length s)), encode = (\<lambda>s. Inr ()),
      tokenizer = \<lparr>model_max_length = 512, tokenizer_call = (\<lambda>s. Inr ())\<rparr>\<rparr>"

text \<open>
  A tokenizer with one token per word and two special tokens around every text it is
  given, as the tokenizers of BERT-like models add them.
\<close>

definition word_count :: "pystr \<Rightarrow> nat" where
  "word_count s = length (py_split s) + 2"

definition word_count_model :: "unit sentence_transformer" where
  "word_count_model =
     \<lparr>tokenize = (\<lambda>s. Inr (word_count s)), encode = (\<lambda>s. Inr ()),
      tokenizer = \<lparr>model_max_length = 512, tokenizer_call = (\<lambda>s. Inr ())\<rparr>\<rparr>"

text \<open>
  An encoder that raises on one input and returns the length of every other input as
  its vector; its tokenizer is the one of \<open>word_count_model\<close>.
\<close>

definition fragile_model :: "nat sentence_transformer" where
  "fragile_model =
     \<lparr>tokenize = (\<lambda>s. Inr (word_count s)),
      encode = (\<lambda>s. if s = str ''Query:  Two.'' then Inl ModelError else Inr (length s)),
      tokenizer = \<lparr>model_max_length = 512, tokenizer_call = (\<lambda>s. Inr ())\<rparr>\<rparr>"

text \<open>
  A stand-in for SHA-256 in the examples: it has the digest of the default prefix
  \<open>'Query: '\<close> and 64 zeros for every other prompt.
\<close>

definition example_digest :: "pystr \<Rightarrow> pystr" where
  "example_digest prompt =
     (if prompt = str ''Query: ''
      then str ''597369d1d7df4789f241858dc8c20e3df895694815d4901a6cf6307563b1b5bd''
      else replicate 64 48)"

section \<open>The orchestrator as the specification words it\<close>

text \<open>
  What one record contributes to the output, in the words of the specification: nothing
  when the preprocessing stage raises, nothing when the encoder raises for one of the
  chunks, and otherwise one article with the chunks and, index-aligned, the vector of
  each chunk.
\<close>

definition spec_article ::
  "('i \<Rightarrow> pystr) \<Rightarrow> 'v sentence_transformer \<Rightarrow> int \<Rightarrow> pystr \<Rightarrow> 'i \<times> pystr option \<Rightarrow>
   'v processed_article option" where
  "spec_article py_str model max_tokens prefix row =
     (case preprocess model max_tokens (snd row) of
        Inl e \<Rightarrow> None
      | Inr chunks \<Rightarrow>
          if list_ex (\<lambda>c. isl (encode model (chunk_input prefix c))) chunks then None
          else Some \<lparr>article_id = py_str (fst row), chunk = chunks,
                     embedding = map (\<lambda>c. projr (encode model (chunk_input prefix c))) chunks\<rparr>)"

section \<open>The shape of cleaned text\<close>

text \<open>
  Two properties of a text, used to show that cleaning a cleaned text changes nothing.
  In a \<open>spaced\<close> text every whitespace character is a space and no two of them are
  adjacent; in a \<open>tight\<close> text no whitespace stands directly before a punctuation mark.
\<close>

fun spaced :: "pystr \<Rightarrow> bool" where
  "spaced [] = True"
| "spaced [c] = (is_space c \<longrightarrow> c = 32)"
| "spaced (c # d # cs) = ((is_space c \<longrightarrow> c = 32 \<and> \<not> is_space d) \<and> spaced (d # cs))"

fun tight :: "pystr \<Rightarrow> bool" where
  "tight [] = True"
| "tight [c] = True"
| "tight (c # d # cs) = (\<not> (is_space c \<and> is_punct d) \<and> tight (d # cs))"

section \<open>Facts about the string operations\<close>

lemma is_space_32: "is_space 32"
  by (simp add: is_space_def)

lemma str_space: "str '' '' = [32]"
  by (simp add: str_def)

lemma split_from_space_append:
  "is_space c \<Longrightarrow> split_from w (a @ c # b) = split_from w a @ split_from [] b"
  by (induction a arbitrary: w) simp_all

lemma py_split_space_append: "py_split (a @ 32 # b) = py_split a @ py_split b"
  by (simp add: py_split_def split_from_space_append is_space_32)

lemma py_split_join: "py_split (py_join (str '' '') xs) = concat (map py_split xs)"
proof (induction xs rule: induct_list012)
  case 1
  show ?case by (simp add: py_split_def)
next
  case (2 x)
  show ?case by simp
next
  case (3 x y zs)
  then show ?case by (simp add: str_space py_split_space_append)
qed

text \<open>Every word that \<open>split\<close> returns is non-empty and free of whitespace.\<close>

lemma split_from_clean:
  "x \<in> set (split_from w s) \<Longrightarrow> \<forall>c\<in>set w. \<not> is_space c \<Longrightarrow>
   x \<noteq> [] \<and> (\<forall>c\<in>set x. \<not> is_space c)"
proof (induction s arbitrary: w)
  case Nil
  then show ?case by (cases "w = []") simp_all
next
  case (Cons c cs)
  show ?case
  proof (cases "is_space c")
    case True
    show ?thesis
    proof (cases "w = []")
      case True
      with \<open>is_space c\<close> Cons.prems(1) have "x \<in> set (split_from [] cs)" by simp
      then show ?thesis using Cons.IH [of "[]"] by simp
    next
      case False
      with \<open>is_space c\<close> Cons.prems(1) have "x = w \<or> x \<in> set (split_from [] cs)" by simp
      then show ?thesis using Cons.IH [of "[]"] False Cons.prems(2) by auto
    qed
  next
    case False
    with Cons.prems(1) have "x \<in> set (split_from (w @ [c]) cs)" by simp
    moreover have "\<forall>d\<in>set (w @ [c]). \<not> is_space d" using False Cons.prems(2) by simp
    ultimately show ?thesis using Cons.IH [of "w @ [c]"] by blast
  qed
qed

lemma split_from_word:
  "\<forall>c\<in>set x. \<not> is_space c \<Longrightarrow> w @ x \<noteq> [] \<Longrightarrow> split_from w x = [w @ x]"
proof (induction x arbitrary: w)
  case Nil
  then show ?case by simp
next
  case (Cons c cs)
  then have "split_from (w @ [c]) cs = [(w @ [c]) @ cs]" by simp
  with Cons.prems show ?case by simp
qed

lemma py_split_word: "x \<in> set (py_split s) \<Longrightarrow> py_split x = [x]"
proof -
  assume "x \<in> set (py_split s)"
  then have "x \<noteq> [] \<and> (\<forall>c\<in>set x. \<not> is_space c)"
    using split_from_clean [of x "[]" s] by (simp add: py_split_def)
  then show ?thesis using split_from_word [of x "[]"] by (simp add: py_split_def)
qed

lemma concat_split_words: "\<forall>x\<in>set ws. py_split x = [x] \<Longrightarrow> concat (map py_split ws) = ws"
  by (induction ws) simp_all

lemma py_split_idem: "concat (map py_split (py_split s)) = py_split s"
  by (rule concat_split_words) (simp add: py_split_word)

section \<open>Facts about the word-level splitter\<close>

lemma split_step_eq:
  "tokenize m w = Inr n \<Longrightarrow>
   split_step m mx (parts, cur, len) w =
     Inr (if int (len + n) > mx then (parts @ [py_join (str '' '') cur], [w], n)
          else (parts, cur @ [w], len + n))"
  by simp

lemma split_loop_words:
  assumes tot: "\<forall>s. tokenize m s = Inr (cnt s)"
  shows "\<exists>parts' cur' len'. split_loop m mx ws (parts, cur, len) = Inr (parts', cur', len') \<and>
           concat (map py_split parts') @ concat (map py_split cur') =
           concat (map py_split parts) @ concat (map py_split cur) @ concat (map py_split ws)"
proof (induction ws arbitrary: parts cur len)
  case Nil
  show ?case by simp
next
  case (Cons w ws)
  have tw: "tokenize m w = Inr (cnt w)" using tot by simp
  show ?case
  proof (cases "int (len + cnt w) > mx")
    case True
    then have step: "split_step m mx (parts, cur, len) w =
        Inr (parts @ [py_join (str '' '') cur], [w], cnt w)"
      using split_step_eq [OF tw] by simp
    from Cons.IH [of "parts @ [py_join (str '' '') cur]" "[w]" "cnt w"]
    show ?thesis by (simp add: step py_split_join del: split_step.simps)
  next
    case False
    then have step: "split_step m mx (parts, cur, len) w = Inr (parts, cur @ [w], len + cnt w)"
      using split_step_eq [OF tw] by simp
    from Cons.IH [of parts "cur @ [w]" "len + cnt w"]
    show ?thesis by (simp add: step del: split_step.simps)
  qed
qed

lemma split_long_sentence_words:
  assumes tot: "\<forall>s. tokenize m s = Inr (cnt s)"
  shows "\<exists>parts. split_long_sentence s mx m = Inr parts \<and>
           concat (map py_split parts) = py_split s"
proof -
  obtain parts cur len where
    loop: "split_loop m mx (py_split s) ([], [], 0) = Inr (parts, cur, len)" and
    words: "concat (map py_split parts) @ concat (map py_split cur) =
            concat (map py_split (py_split s))"
    using split_loop_words [OF tot, of mx "py_split s" "[]" "[]" 0] by auto
  show ?thesis
    using words
    by (cases "cur = []") (simp_all add: split_long_sentence_def loop py_split_join py_split_idem)
qed

lemma join_count_le:
  assumes sub: "\<forall>a b. cnt (a @ str '' '' @ b) \<le> cnt a + cnt b" and "xs \<noteq> []"
  shows "(cnt (py_join (str '' '') xs) :: nat) \<le> sum_list (map cnt xs)"
  using \<open>xs \<noteq> []\<close>
proof (induction xs rule: induct_list012)
  case 1
  then show ?case by simp
next
  case (2 x)
  show ?case by simp
next
  case (3 x y zs)
  have "cnt (x @ str '' '' @ py_join (str '' '') (y # zs))
          \<le> cnt x + cnt (py_join (str '' '') (y # zs))"
    using sub by blast
  also have "\<dots> \<le> cnt x + sum_list (map cnt (y # zs))"
    using 3 by simp
  finally show ?case by simp
qed

lemma split_loop_budget:
  assumes tot: "\<forall>s. tokenize m s = Inr (cnt s)"
    and sub: "\<forall>a b. cnt (a @ str '' '' @ b) \<le> cnt a + cnt b"
  shows "\<forall>w\<in>set ws. int (cnt w) \<le> mx \<Longrightarrow> \<forall>p\<in>set parts. int (cnt p) \<le> mx \<Longrightarrow>
         len = sum_list (map cnt cur) \<Longrightarrow> (cur \<noteq> [] \<longrightarrow> int len \<le> mx) \<Longrightarrow>
         \<exists>parts' cur' len'. split_loop m mx ws (parts, cur, len) = Inr (parts', cur', len') \<and>
           (\<forall>p\<in>set parts'. int (cnt p) \<le> mx) \<and> len' = sum_list (map cnt cur') \<and>
           (cur' \<noteq> [] \<longrightarrow> int len' \<le> mx)"
proof (induction ws arbitrary: parts cur len)
  case Nil
  then show ?case by simp
next
  case (Cons w ws)
  have tw: "tokenize m w = Inr (cnt w)" using tot by simp
  have w_le: "int (cnt w) \<le> mx" using Cons.prems(1) by simp
  have ws_le: "\<forall>w\<in>set ws. int (cnt w) \<le> mx" using Cons.prems(1) by simp
  show ?case
  proof (cases "int (len + cnt w) > mx")
    case True
    then have step: "split_step m mx (parts, cur, len) w =
        Inr (parts @ [py_join (str '' '') cur], [w], cnt w)"
      using split_step_eq [OF tw] by simp
    have "cur \<noteq> []" using True w_le Cons.prems(3) by auto
    then have "cnt (py_join (str '' '') cur) \<le> len"
      using join_count_le [OF sub] Cons.prems(3) by simp
    moreover have "int len \<le> mx" using \<open>cur \<noteq> []\<close> Cons.prems(4) by simp
    ultimately have "\<forall>p\<in>set (parts @ [py_join (str '' '') cur]). int (cnt p) \<le> mx"
      using Cons.prems(2) by auto
    moreover have "cnt w = sum_list (map cnt [w])" by simp
    moreover have "[w] \<noteq> [] \<longrightarrow> int (cnt w) \<le> mx" using w_le by simp
    ultimately show ?thesis
      using Cons.IH [OF ws_le, of "parts @ [py_join (str '' '') cur]" "cnt w" "[w]"]
      by (simp only: split_loop.simps step sum.case)
  next
    case False
    then have step: "split_step m mx (parts, cur, len) w = Inr (parts, cur @ [w], len + cnt w)"
      using split_step_eq [OF tw] by simp
    have "len + cnt w = sum_list (map cnt (cur @ [w]))" using Cons.prems(3) by simp
    moreover have "cur @ [w] \<noteq> [] \<longrightarrow> int (len + cnt w) \<le> mx" using False by simp
    ultimately show ?thesis
      using Cons.IH [OF ws_le Cons.prems(2), of "len + cnt w" "cur @ [w]"]
      by (simp only: split_loop.simps step sum.case)
  qed
qed

lemma split_long_sentence_within_budget:
  assumes tot: "\<forall>s. tokenize m s = Inr (cnt s)"
    and sub: "\<forall>a b. cnt (a @ str '' '' @ b) \<le> cnt a + cnt b"
    and words: "\<forall>w\<in>set (py_split s). int (cnt w) \<le> mx"
  shows "\<exists>parts. split_long_sentence s mx m = Inr parts \<and> (\<forall>p\<in>set parts. int (cnt p) \<le> mx)"
proof -
  obtain parts cur len where
    loop: "split_loop m mx (py_split s) ([], [], 0) = Inr (parts, cur, len)" and
    parts: "\<forall>p\<in>set parts. int (cnt p) \<le> mx" and
    len: "len = sum_list (map cnt cur)" and cur: "cur \<noteq> [] \<longrightarrow> int len \<le> mx"
    using split_loop_budget [OF tot sub words, of "[]" 0 "[]"] by auto
  show ?thesis
  proof (cases "cur = []")
    case True
    then show ?thesis using parts by (simp add: split_long_sentence_def loop)
  next
    case False
    then have "cnt (py_join (str '' '') cur) \<le> len"
      using join_count_le [OF sub] len by simp
    then have "int (cnt (py_join (str '' '') cur)) \<le> mx" using cur False by simp
    then show ?thesis using parts False by (simp add: split_long_sentence_def loop)
  qed
qed

section \<open>Facts about the chunker\<close>

lemma chunk_step_eq:
  "tokenize m s = Inr n \<Longrightarrow>
   chunk_step m mx (out, cur, len) s =
     (if int (len + n) > mx
      then (if cur = []
            then (case split_long_sentence s mx m of
                    Inl e \<Rightarrow> Inl e
                  | Inr parts \<Rightarrow> Inr (out @ parts, [s], len + n))
            else Inr (out @ [py_join (str '' '') cur], [s], n))
      else Inr (out, cur @ [s], len + n))"
  by (simp split: sum.splits)

lemma chunk_loop_budget:
  assumes tot: "\<forall>s. tokenize m s = Inr (cnt s)"
    and sub: "\<forall>a b. cnt (a @ str '' '' @ b) \<le> cnt a + cnt b"
  shows "\<forall>s\<in>set ss. int (cnt s) \<le> mx \<Longrightarrow> \<forall>c\<in>set out. int (cnt c) \<le> mx \<Longrightarrow>
         len = sum_list (map cnt cur) \<Longrightarrow> (cur \<noteq> [] \<longrightarrow> int len \<le> mx) \<Longrightarrow>
         \<exists>out' cur' len'. chunk_loop m mx ss (out, cur, len) = Inr (out', cur', len') \<and>
           (\<forall>c\<in>set out'. int (cnt c) \<le> mx) \<and> len' = sum_list (map cnt cur') \<and>
           (cur' \<noteq> [] \<longrightarrow> int len' \<le> mx)"
proof (induction ss arbitrary: out cur len)
  case Nil
  then show ?case by simp
next
  case (Cons s ss)
  have ts: "tokenize m s = Inr (cnt s)" using tot by simp
  have s_le: "int (cnt s) \<le> mx" using Cons.prems(1) by simp
  have ss_le: "\<forall>s\<in>set ss. int (cnt s) \<le> mx" using Cons.prems(1) by simp
  show ?case
  proof (cases "int (len + cnt s) > mx")
    case True
    have nonempty: "cur \<noteq> []" using True s_le Cons.prems(3) by auto
    with True have step: "chunk_step m mx (out, cur, len) s =
        Inr (out @ [py_join (str '' '') cur], [s], cnt s)"
      using chunk_step_eq [OF ts] by simp
    have "cnt (py_join (str '' '') cur) \<le> len"
      using join_count_le [OF sub nonempty] Cons.prems(3) by simp
    moreover have "int len \<le> mx" using nonempty Cons.prems(4) by simp
    ultimately have "\<forall>c\<in>set (out @ [py_join (str '' '') cur]). int (cnt c) \<le> mx"
      using Cons.prems(2) by auto
    moreover have "cnt s = sum_list (map cnt [s])" by simp
    moreover have "[s] \<noteq> [] \<longrightarrow> int (cnt s) \<le> mx" using s_le by simp
    ultimately show ?thesis
      using Cons.IH [OF ss_le, of "out @ [py_join (str '' '') cur]" "cnt s" "[s]"]
      by (simp only: chunk_loop.simps step sum.case)
  next
    case False
    then have step: "chunk_step m mx (out, cur, len) s = Inr (out, cur @ [s], len + cnt s)"
      using chunk_step_eq [OF ts] by simp
    have "len + cnt s = sum_list (map cnt (cur @ [s]))" using Cons.prems(3) by simp
    moreover have "cur @ [s] \<noteq> [] \<longrightarrow> int (len + cnt s) \<le> mx" using False by simp
    ultimately show ?thesis
      using Cons.IH [OF ss_le Cons.prems(2), of "len + cnt s" "cur @ [s]"]
      by (simp only: chunk_loop.simps step sum.case)
  qed
qed

lemma chunk_sentences_within_budget:
  assumes tot: "\<forall>s. tokenize m s = Inr (cnt s)"
    and sub: "\<forall>a b. cnt (a @ str '' '' @ b) \<le> cnt a + cnt b"
    and sentences: "\<forall>s\<in>set ss. int (cnt s) \<le> mx"
  shows "\<exists>out. chunk_sentences ss mx m = Inr out \<and> (\<forall>c\<in>set out. int (cnt c) \<le> mx)"
proof -
  obtain out cur len where
    loop: "chunk_loop m mx ss ([], [], 0) = Inr (out, cur, len)" and
    out: "\<forall>c\<in>set out. int (cnt c) \<le> mx" and
    len: "len = sum_list (map cnt cur)" and cur: "cur \<noteq> [] \<longrightarrow> int len \<le> mx"
    using chunk_loop_budget [OF tot sub sentences, of "[]" 0 "[]"] by auto
  show ?thesis
  proof (cases "cur = []")
    case True
    then show ?thesis using out by (simp add: chunk_sentences_def loop)
  next
    case False
    then have "cnt (py_join (str '' '') cur) \<le> len"
      using join_count_le [OF sub] len by simp
    then have "int (cnt (py_join (str '' '') cur)) \<le> mx" using cur False by simp
    then show ?thesis using out False by (simp add: chunk_sentences_def loop)
  qed
qed

text \<open>Once the buffer holds a sentence it is never empty again, and no word is lost or added.\<close>

lemma chunk_loop_words:
  assumes tot: "\<forall>s. tokenize m s = Inr (cnt s)"
  shows "cur \<noteq> [] \<Longrightarrow>
         \<exists>out' cur' len'. chunk_loop m mx ss (out, cur, len) = Inr (out', cur', len') \<and>
           cur' \<noteq> [] \<and>
           concat (map py_split out') @ concat (map py_split cur') =
           concat (map py_split out) @ concat (map py_split cur) @ concat (map py_split ss)"
proof (induction ss arbitrary: out cur len)
  case Nil
  then show ?case by simp
next
  case (Cons s ss)
  have ts: "tokenize m s = Inr (cnt s)" using tot by simp
  show ?case
  proof (cases "int (len + cnt s) > mx")
    case True
    with Cons.prems have step: "chunk_step m mx (out, cur, len) s =
        Inr (out @ [py_join (str '' '') cur], [s], cnt s)"
      using chunk_step_eq [OF ts] by simp
    from Cons.IH [of "[s]" "out @ [py_join (str '' '') cur]" "cnt s"]
    show ?thesis by (simp add: step py_split_join del: chunk_step.simps)
  next
    case False
    then have step: "chunk_step m mx (out, cur, len) s = Inr (out, cur @ [s], len + cnt s)"
      using chunk_step_eq [OF ts] by simp
    from Cons.IH [of "cur @ [s]" out "len + cnt s"]
    show ?thesis by (simp add: step del: chunk_step.simps)
  qed
qed

lemma chunk_sentences_words_aux:
  assumes tot: "\<forall>s. tokenize m s = Inr (cnt s)"
  shows "\<exists>out. chunk_sentences ss mx m = Inr out \<and>
           concat (map py_split out) =
             (case ss of [] \<Rightarrow> [] | s # rest \<Rightarrow> if int (cnt s) > mx then py_split s else [])
             @ concat (map py_split ss)"
proof (cases ss)
  case Nil
  then show ?thesis by (simp add: chunk_sentences_def)
next
  case (Cons s rest)
  have ts: "tokenize m s = Inr (cnt s)" using tot by simp
  obtain parts where parts: "split_long_sentence s mx m = Inr parts"
    and parts_words: "concat (map py_split parts) = py_split s"
    using split_long_sentence_words [OF tot] by blast
  define out0 where "out0 = (if int (cnt s) > mx then parts else [])"
  have step: "chunk_step m mx ([], [], 0) s = Inr (out0, [s], cnt s)"
    using chunk_step_eq [OF ts, of mx "[]" "[]" 0] by (simp add: parts out0_def)
  obtain out cur len where
    loop: "chunk_loop m mx rest (out0, [s], cnt s) = Inr (out, cur, len)" and
    cur: "cur \<noteq> []" and
    words: "concat (map py_split out) @ concat (map py_split cur) =
            concat (map py_split out0) @ concat (map py_split [s]) @ concat (map py_split rest)"
    using chunk_loop_words [OF tot, of "[s]" mx rest out0 "cnt s"] by auto
  have "chunk_sentences ss mx m = Inr (out @ [py_join (str '' '') cur])"
    using cur by (simp add: chunk_sentences_def Cons step loop del: chunk_step.simps)
  moreover have "concat (map py_split out0) = (if int (cnt s) > mx then py_split s else [])"
    by (simp add: out0_def parts_words)
  ultimately show ?thesis using words by (simp add: Cons py_split_join)
qed

lemma py_join_prefix: "\<exists>t. py_join sep (x # xs) = x @ t"
  by (cases xs) simp_all

lemma chunk_loop_first_flush:
  assumes tot: "\<forall>s. tokenize m s = Inr (cnt s)"
  shows "cur \<noteq> [] \<Longrightarrow>
         \<exists>out' cur' len'. chunk_loop m mx ss (out, cur, len) = Inr (out', cur', len') \<and>
           cur' \<noteq> [] \<and>
           ((out' = out \<and> (\<exists>zs. cur' = cur @ zs)) \<or>
            (\<exists>zs more. out' = out @ py_join (str '' '') (cur @ zs) # more))"
proof (induction ss arbitrary: out cur len)
  case Nil
  then show ?case by simp
next
  case (Cons s ss)
  have ts: "tokenize m s = Inr (cnt s)" using tot by simp
  show ?case
  proof (cases "int (len + cnt s) > mx")
    case True
    with Cons.prems have step: "chunk_step m mx (out, cur, len) s =
        Inr (out @ [py_join (str '' '') cur], [s], cnt s)"
      using chunk_step_eq [OF ts] by simp
    obtain out' cur' len' where
      loop: "chunk_loop m mx ss (out @ [py_join (str '' '') cur], [s], cnt s) = Inr (out', cur', len')"
      and cur': "cur' \<noteq> []"
      and shape: "(out' = out @ [py_join (str '' '') cur] \<and> (\<exists>zs. cur' = [s] @ zs)) \<or>
            (\<exists>zs more. out' = (out @ [py_join (str '' '') cur]) @ py_join (str '' '') ([s] @ zs) # more)"
      using Cons.IH [of "[s]" "out @ [py_join (str '' '') cur]" "cnt s"] by blast
    from shape have "\<exists>more. out' = out @ py_join (str '' '') (cur @ []) # more" by auto
    then have "\<exists>zs more. out' = out @ py_join (str '' '') (cur @ zs) # more" by blast
    with loop cur' show ?thesis by (simp only: chunk_loop.simps step sum.case) blast
  next
    case False
    then have step: "chunk_step m mx (out, cur, len) s = Inr (out, cur @ [s], len + cnt s)"
      using chunk_step_eq [OF ts] by simp
    obtain out' cur' len' where
      loop: "chunk_loop m mx ss (out, cur @ [s], len + cnt s) = Inr (out', cur', len')"
      and cur': "cur' \<noteq> []"
      and shape: "(out' = out \<and> (\<exists>zs. cur' = (cur @ [s]) @ zs)) \<or>
            (\<exists>zs more. out' = out @ py_join (str '' '') ((cur @ [s]) @ zs) # more)"
      using Cons.IH [of "cur @ [s]" out "len + cnt s"] by blast
    from shape have "(out' = out \<and> (\<exists>zs. cur' = cur @ zs)) \<or>
            (\<exists>zs more. out' = out @ py_join (str '' '') (cur @ zs) # more)"
      by (metis append_Cons append_Nil append_assoc)
    with loop cur' show ?thesis by (simp only: chunk_loop.simps step sum.case) blast
  qed
qed

lemma chunk_sentences_oversized_first:
  assumes tot: "\<forall>s. tokenize m s = Inr (cnt s)" and big: "int (cnt s) > mx"
  shows "\<exists>parts t chunks. split_long_sentence s mx m = Inr parts \<and>
           chunk_sentences (s # rest) mx m = Inr (parts @ (s @ t) # chunks)"
proof -
  have ts: "tokenize m s = Inr (cnt s)" using tot by simp
  obtain parts where parts: "split_long_sentence s mx m = Inr parts"
    using split_long_sentence_words [OF tot] by blast
  have step: "chunk_step m mx ([], [], 0) s = Inr (parts, [s], cnt s)"
    using chunk_step_eq [OF ts, of mx "[]" "[]" 0] big by (simp add: parts)
  obtain out cur len where
    loop: "chunk_loop m mx rest (parts, [s], cnt s) = Inr (out, cur, len)" and
    cur: "cur \<noteq> []" and
    shape: "(out = parts \<and> (\<exists>zs. cur = [s] @ zs)) \<or>
            (\<exists>zs more. out = parts @ py_join (str '' '') ([s] @ zs) # more)"
    using chunk_loop_first_flush [OF tot, of "[s]" mx rest parts "cnt s"] by blast
  have res: "chunk_sentences (s # rest) mx m = Inr (out @ [py_join (str '' '') cur])"
    using cur by (simp add: chunk_sentences_def step loop del: chunk_step.simps)
  from shape show ?thesis
  proof
    assume "out = parts \<and> (\<exists>zs. cur = [s] @ zs)"
    then obtain zs where "out = parts" "cur = s # zs" by auto
    moreover obtain t where "py_join (str '' '') (s # zs) = s @ t"
      using py_join_prefix by blast
    ultimately show ?thesis using res parts by auto
  next
    assume "\<exists>zs more. out = parts @ py_join (str '' '') ([s] @ zs) # more"
    then obtain zs more where out: "out = parts @ py_join (str '' '') (s # zs) # more" by auto
    obtain t where "py_join (str '' '') (s # zs) = s @ t"
      using py_join_prefix by blast
    with out res parts show ?thesis by auto
  qed
qed

section \<open>The claims about the chunker\<close>

text \<open>
  C1. In \<open>chunk_sentences\<close>, when the token count of a sentence added to the running
  chunk length exceeds \<open>max_tokens\<close> and the buffer is empty, the parts that
  \<open>split_long_sentence\<close> returns are appended to the output and the sentence itself is
  still appended to the buffer. So the output of \<open>chunk_sentences\<close> on a list whose first
  sentence is oversized is these parts followed by a chunk that starts with the whole
  sentence again, and the words of all emitted chunks are the words of the input with
  the words of that sentence once more in front. The tokenizer is any that does not
  raise.
\<close>

theorem chunk_sentences_duplicates_oversized:
  assumes "\<forall>s. tokenize m s = Inr (cnt s)"
  shows "(int (chunk_len + cnt s) > mx \<longrightarrow>
            (\<exists>parts. split_long_sentence s mx m = Inr parts \<and>
               chunk_step m mx (acc, [], chunk_len) s =
                 Inr (acc @ parts, [s], chunk_len + cnt s))) \<and>
         (int (cnt s) > mx \<longrightarrow>
            (\<exists>parts t chunks. split_long_sentence s mx m = Inr parts \<and>
               chunk_sentences (s # rest) mx m = Inr (parts @ (s @ t) # chunks))) \<and>
         (\<exists>out. chunk_sentences ss mx m = Inr out \<and>
            concat (map py_split out) =
              (case ss of [] \<Rightarrow> [] | s # rest \<Rightarrow> if int (cnt s) > mx then py_split s else [])
              @ concat (map py_split ss))"
proof (intro conjI impI)
  assume big: "int (chunk_len + cnt s) > mx"
  have ts: "tokenize m s = Inr (cnt s)" using assms by simp
  obtain parts where parts: "split_long_sentence s mx m = Inr parts"
    using split_long_sentence_words [OF assms] by blast
  have "chunk_step m mx (acc, [], chunk_len) s = Inr (acc @ parts, [s], chunk_len + cnt s)"
    using chunk_step_eq [OF ts, of mx acc "[]" chunk_len] big by (simp add: parts)
  with parts show "\<exists>parts. split_long_sentence s mx m = Inr parts \<and>
      chunk_step m mx (acc, [], chunk_len) s = Inr (acc @ parts, [s], chunk_len + cnt s)"
    by blast
next
  assume "int (cnt s) > mx"
  then show "\<exists>parts t chunks. split_long_sentence s mx m = Inr parts \<and>
      chunk_sentences (s # rest) mx m = Inr (parts @ (s @ t) # chunks)"
    by (rule chunk_sentences_oversized_first [OF assms])
next
  show "\<exists>out. chunk_sentences ss mx m = Inr out \<and>
      concat (map py_split out) =
        (case ss of [] \<Rightarrow> [] | s # rest \<Rightarrow> if int (cnt s) > mx then py_split s else [])
        @ concat (map py_split ss)"
    by (rule chunk_sentences_words_aux [OF assms])
qed

lemma char_count_model_total: "\<forall>s. tokenize char_count_model s = Inr (length s)"
  by (simp add: char_count_model_def)

lemma chunk_sentences_example:
  "chunk_sentences [str ''Extraordinary claims.'', str ''Ok.''] 14 char_count_model =
     Inr [str ''Extraordinary'', str ''claims.'', str ''Extraordinary claims.'', str ''Ok.'']"
  by (simp add: chunk_sentences_def split_long_sentence_def py_split_def char_count_model_def
      str_def is_space_def)

theorem chunk_sentences_duplicates_oversized_witness:
  "(\<forall>s. tokenize char_count_model s = Inr (length s)) \<and>
   int (0 + length (str ''Extraordinary claims.'')) > 14 \<and>
   (\<exists>parts. split_long_sentence (str ''Extraordinary claims.'') 14 char_count_model = Inr parts \<and>
      chunk_step char_count_model 14 ([], [], 0) (str ''Extraordinary claims.'') =
        Inr ([] @ parts, [str ''Extraordinary claims.''], 0 + length (str ''Extraordinary claims.''))) \<and>
   (\<exists>parts t chunks.
      split_long_sentence (str ''Extraordinary claims.'') 14 char_count_model = Inr parts \<and>
      chunk_sentences [str ''Extraordinary claims.'', str ''Ok.''] 14 char_count_model =
        Inr (parts @ (str ''Extraordinary claims.'' @ t) # chunks)) \<and>
   (\<exists>out. chunk_sentences [str ''Extraordinary claims.'', str ''Ok.''] 14 char_count_model = Inr out \<and>
      concat (map py_split out) =
        py_split (str ''Extraordinary claims.'') @
        concat (map py_split [str ''Extraordinary claims.'', str ''Ok.''])) \<and>
   chunk_sentences [str ''Extraordinary claims.'', str ''Ok.''] 14 char_count_model =
     Inr [str ''Extraordinary'', str ''claims.'', str ''Extraordinary claims.'', str ''Ok.'']"
proof -
  have big: "int (0 + length (str ''Extraordinary claims.'')) > 14"
    by (simp add: str_def)
  have big': "int (length (str ''Extraordinary claims.'')) > 14"
    by (simp add: str_def)
  note inst = chunk_sentences_duplicates_oversized [OF char_count_model_total,
      where chunk_len = 0 and s = "str ''Extraordinary claims.''" and mx = 14 and acc = "[]"
        and rest = "[str ''Ok.'']" and ss = "[str ''Extraordinary claims.'', str ''Ok.'']"]
  from inst big have a: "\<exists>parts. split_long_sentence (str ''Extraordinary claims.'') 14 char_count_model = Inr parts \<and>
      chunk_step char_count_model 14 ([], [], 0) (str ''Extraordinary claims.'') =
        Inr ([] @ parts, [str ''Extraordinary claims.''], 0 + length (str ''Extraordinary claims.''))"
    by blast
  from inst big' have b: "\<exists>parts t chunks.
      split_long_sentence (str ''Extraordinary claims.'') 14 char_count_model = Inr parts \<and>
      chunk_sentences [str ''Extraordinary claims.'', str ''Ok.''] 14 char_count_model =
        Inr (parts @ (str ''Extraordinary claims.'' @ t) # chunks)"
    by blast
  from inst big' have c: "\<exists>out. chunk_sentences [str ''Extraordinary claims.'', str ''Ok.''] 14 char_count_model = Inr out \<and>
      concat (map py_split out) =
        py_split (str ''Extraordinary claims.'') @
        concat (map py_split [str ''Extraordinary claims.'', str ''Ok.''])"
    by simp
  from char_count_model_total big a b c chunk_sentences_example show ?thesis by blast
qed

text \<open>
  C2. The claim is that every string \<open>chunk_sentences\<close> returns is non-empty, the
  word-level fallback included. The code does otherwise when the first word of an
  oversized first sentence has more tokens than \<open>max_tokens\<close>: \<open>split_long_sentence\<close>
  flushes its buffer before it has put a word in it, and the empty string is emitted as
  a chunk. Here the tokenizer counts characters and \<open>max_tokens\<close> is 5.
\<close>

theorem chunk_sentences_emits_empty_chunk:
  "split_long_sentence (str ''Extraordinary.'') 5 char_count_model =
     Inr [[], str ''Extraordinary.''] \<and>
   chunk_sentences [str ''Extraordinary.''] 5 char_count_model =
     Inr [[], str ''Extraordinary.'', str ''Extraordinary.'']"
  by (simp add: chunk_sentences_def split_long_sentence_def py_split_def char_count_model_def
      str_def is_space_def)

text \<open>
  C3, as stated: whenever no sentence has more than \<open>max_tokens\<close> tokens, no chunk has.
  It fails for a tokenizer that counts the joining space: two sentences of three tokens
  fit a budget of six and are joined into a chunk of seven.
\<close>

theorem chunk_sentences_budget_counterexample:
  "tokenize char_count_model (str ''ab.'') = Inr 3 \<and>
   tokenize char_count_model (str ''cd.'') = Inr 3 \<and>
   chunk_sentences [str ''ab.'', str ''cd.''] 6 char_count_model = Inr [str ''ab. cd.''] \<and>
   tokenize char_count_model (str ''ab. cd.'') = Inr 7"
  by (simp add: chunk_sentences_def char_count_model_def str_def)

text \<open>
  C3, amended: for a tokenizer that does not raise and whose count of two texts joined
  by a space is at most the sum of their counts, every sentence list and every
  \<open>max_tokens \<ge> 1\<close> such that no sentence has more than \<open>max_tokens\<close> tokens,
  \<open>chunk_sentences\<close> returns, and every chunk it returns has at most \<open>max_tokens\<close> tokens.
\<close>

theorem chunk_sentences_budget:
  assumes "\<forall>s. tokenize m s = Inr (cnt s)"
    and "\<forall>a b. cnt (a @ str '' '' @ b) \<le> cnt a + cnt b"
    and "1 \<le> max_tokens"
    and "\<forall>s\<in>set sentences. int (cnt s) \<le> max_tokens"
  shows "\<exists>out. chunk_sentences sentences max_tokens m = Inr out \<and>
           (\<forall>c\<in>set out. int (cnt c) \<le> max_tokens)"
  using assms(1,2,4) by (rule chunk_sentences_within_budget)

lemma word_count_model_total: "\<forall>s. tokenize word_count_model s = Inr (word_count s)"
  by (simp add: word_count_model_def)

lemma word_count_subadditive: "\<forall>a b. word_count (a @ str '' '' @ b) \<le> word_count a + word_count b"
  by (simp add: word_count_def str_space py_split_space_append)

theorem chunk_sentences_budget_witness:
  "(\<forall>s. tokenize word_count_model s = Inr (word_count s)) \<and>
   (\<forall>a b. word_count (a @ str '' '' @ b) \<le> word_count a + word_count b) \<and>
   (1::int) \<le> 8 \<and>
   list_all (\<lambda>s. int (word_count s) \<le> 8)
     [str ''One two.'', str ''Three.'', str ''Four five six.''] \<and>
   (\<exists>out. chunk_sentences [str ''One two.'', str ''Three.'', str ''Four five six.''] 8
             word_count_model = Inr out \<and>
          (\<forall>c\<in>set out. int (word_count c) \<le> 8)) \<and>
   chunk_sentences [str ''One two.'', str ''Three.'', str ''Four five six.''] 8 word_count_model =
     Inr [str ''One two. Three.'', str ''Four five six.'']"
proof -
  have small: "\<forall>s\<in>set [str ''One two.'', str ''Three.'', str ''Four five six.''].
      int (word_count s) \<le> 8"
    by (simp add: word_count_def py_split_def str_def is_space_def)
  have one: "(1::int) \<le> 8" by simp
  have run: "chunk_sentences [str ''One two.'', str ''Three.'', str ''Four five six.''] 8
      word_count_model = Inr [str ''One two. Three.'', str ''Four five six.'']"
    by (simp add: chunk_sentences_def word_count_model_def word_count_def py_split_def
        str_def is_space_def)
  from chunk_sentences_budget [OF word_count_model_total word_count_subadditive one small]
    word_count_model_total word_count_subadditive small run
  show ?thesis by (simp add: list_all_iff)
qed

text \<open>
  C4, as stated: whenever no word has more than \<open>max_tokens\<close> tokens, no part that
  \<open>split_long_sentence\<close> returns has. It fails for the tokenizer that counts
  characters: two words of two tokens fit a budget of four and are joined into a part
  of five.
\<close>

theorem split_long_sentence_budget_counterexample:
  "py_split (str ''ab cd'') = [str ''ab'', str ''cd''] \<and>
   tokenize char_count_model (str ''ab'') = Inr 2 \<and>
   tokenize char_count_model (str ''cd'') = Inr 2 \<and>
   split_long_sentence (str ''ab cd'') 4 char_count_model = Inr [str ''ab cd''] \<and>
   tokenize char_count_model (str ''ab cd'') = Inr 5"
  by (simp add: split_long_sentence_def py_split_def char_count_model_def str_def is_space_def)

text \<open>
  C4, amended: for a tokenizer that does not raise and whose count of two texts joined
  by a space is at most the sum of their counts, every sentence and every \<open>max_tokens\<close>
  such that no word of the sentence has more than \<open>max_tokens\<close> tokens,
  \<open>split_long_sentence\<close> returns, and every part it returns has at most \<open>max_tokens\<close>
  tokens.
\<close>

theorem split_long_sentence_budget:
  assumes "\<forall>s. tokenize m s = Inr (cnt s)"
    and "\<forall>a b. cnt (a @ str '' '' @ b) \<le> cnt a + cnt b"
    and "\<forall>w\<in>set (py_split sentence). int (cnt w) \<le> max_tokens"
  shows "\<exists>parts. split_long_sentence sentence max_tokens m = Inr parts \<and>
           (\<forall>p\<in>set parts. int (cnt p) \<le> max_tokens)"
  using assms by (rule split_long_sentence_within_budget)

theorem split_long_sentence_budget_witness:
  "(\<forall>s. tokenize word_count_model s = Inr (word_count s)) \<and>
   (\<forall>a b. word_count (a @ str '' '' @ b) \<le> word_count a + word_count b) \<and>
   list_all (\<lambda>w. int (word_count w) \<le> 6) (py_split (str ''one two three four five'')) \<and>
   (\<exists>parts. split_long_sentence (str ''one two three four five'') 6 word_count_model = Inr parts \<and>
          (\<forall>p\<in>set parts. int (word_count p) \<le> 6)) \<and>
   split_long_sentence (str ''one two three four five'') 6 word_count_model =
     Inr [str ''one two'', str ''three four'', str ''five'']"
proof -
  have small: "\<forall>w\<in>set (py_split (str ''one two three four five'')). int (word_count w) \<le> 6"
    by (simp add: word_count_def py_split_def str_def is_space_def)
  have run: "split_long_sentence (str ''one two three four five'') 6 word_count_model =
      Inr [str ''one two'', str ''three four'', str ''five'']"
    by (simp add: split_long_sentence_def word_count_model_def word_count_def py_split_def
        str_def is_space_def)
  from split_long_sentence_budget [OF word_count_model_total word_count_subadditive small]
    word_count_model_total word_count_subadditive small run
  show ?thesis by (simp add: list_all_iff)
qed

section \<open>The claim about the token budget\<close>

text \<open>
  C5. \<open>find_max_tokens\<close> returns the configured \<open>model_max_length\<close> when it is at most
  9000 and the trial tokenization succeeds, 510 when \<open>model_max_length\<close> exceeds 9000,
  and 510 when the trial tokenization raises. It always returns, and in the last case
  \<open>main\<close> goes on with 510 as its budget.
\<close>

theorem find_max_tokens_cases:
  "(tokenizer_call tk (str ''This is a test sentence.'') = Inr r \<and> model_max_length tk \<le> 9000
      \<longrightarrow> find_max_tokens tk = model_max_length tk) \<and>
   (model_max_length tk > 9000 \<longrightarrow> find_max_tokens tk = 510) \<and>
   (tokenizer_call tk (str ''This is a test sentence.'') = Inl e \<longrightarrow> find_max_tokens tk = 510) \<and>
   (tokenizer_call (tokenizer model) (str ''This is a test sentence.'') = Inl e \<longrightarrow>
      main sha256_hex py_str model (Some df) output_dir model_name prefix prefix_description =
        Inr ((output_dir, output_name sha256_hex model_name prefix prefix_description),
             main_loop py_str model 510 prefix df []))"
  by (auto simp add: find_max_tokens_def main_def Let_def split: sum.splits)

theorem find_max_tokens_cases_witness:
  "find_max_tokens \<lparr>model_max_length = 512, tokenizer_call = (\<lambda>s. Inr ())\<rparr> = 512 \<and>
   find_max_tokens \<lparr>model_max_length = 1000000000000000019884624838656,
                    tokenizer_call = (\<lambda>s. Inr ())\<rparr> = 510 \<and>
   find_max_tokens \<lparr>model_max_length = 512, tokenizer_call = (\<lambda>s. Inl ModelError)\<rparr> = 510 \<and>
   main example_digest (\<lambda>i. i)
     (fragile_model\<lparr>tokenizer := \<lparr>model_max_length = 512, tokenizer_call = (\<lambda>s. Inl ModelError)\<rparr>\<rparr>)
     (Some []) () (str ''m'') [] None = Inr (((), str ''emb__m''), [])"
proof -
  have a: "find_max_tokens \<lparr>model_max_length = 512, tokenizer_call = (\<lambda>s. Inr ())\<rparr> = 512"
    using find_max_tokens_cases
      [where tk = "\<lparr>model_max_length = 512, tokenizer_call = (\<lambda>s. Inr ())\<rparr>" and r = "()",
       THEN conjunct1]
    by simp
  have b: "find_max_tokens \<lparr>model_max_length = 1000000000000000019884624838656,
                    tokenizer_call = (\<lambda>s. Inr ())\<rparr> = 510"
    using find_max_tokens_cases
      [where tk = "\<lparr>model_max_length = 1000000000000000019884624838656,
                    tokenizer_call = (\<lambda>s. Inr ())\<rparr>",
       THEN conjunct2, THEN conjunct1]
    by simp
  have c: "find_max_tokens \<lparr>model_max_length = 512, tokenizer_call = (\<lambda>s. Inl ModelError)\<rparr> = 510"
    using find_max_tokens_cases
      [where tk = "\<lparr>model_max_length = 512, tokenizer_call = (\<lambda>s. Inl ModelError)\<rparr>"
         and e = ModelError, THEN conjunct2, THEN conjunct2, THEN conjunct1]
    by simp
  have d: "main example_digest (\<lambda>i. i)
     (fragile_model\<lparr>tokenizer := \<lparr>model_max_length = 512, tokenizer_call = (\<lambda>s. Inl ModelError)\<rparr>\<rparr>)
     (Some []) () (str ''m'') [] None = Inr (((), str ''emb__m''), [])"
    using find_max_tokens_cases
      [where model = "fragile_model\<lparr>tokenizer := \<lparr>model_max_length = 512, tokenizer_call = (\<lambda>s. Inl ModelError)\<rparr>\<rparr>"
         and e = ModelError and sha256_hex = example_digest and py_str = "\<lambda>i. i" and df = "[]"
         and output_dir = "()" and model_name = "str ''m''" and prefix = "[]"
         and prefix_description = None, THEN conjunct2, THEN conjunct2, THEN conjunct2]
    by (simp add: output_name_def py_replace_char_def str_def)
  from a b c d show ?thesis by simp
qed

section \<open>The claim about the sentence splitter\<close>

lemma findall_from_no_terminal: "\<forall>c\<in>set t. \<not> is_terminal c \<Longrightarrow> findall_from acc t = []"
  by (induction t arbitrary: acc) simp_all

lemma findall_from_trailing:
  "\<forall>c\<in>set t. \<not> is_terminal c \<Longrightarrow> findall_from acc (s @ t) = findall_from acc s"
  by (induction s arbitrary: acc) (simp_all add: findall_from_no_terminal)

text \<open>
  C6. \<open>simple_sentencize\<close> on \<open>"A. B! C?"\<close> is \<open>["A.", "B!", "C?"]\<close>; on \<open>"no end"\<close> it is
  the empty list, as it is on every text without a terminal mark; and text after the
  last terminal mark is dropped: appending to a text any text without \<open>.\<close>, \<open>!\<close> or
  \<open>?\<close> leaves its sentences as they were.
\<close>

theorem simple_sentencize_cases:
  "simple_sentencize (str ''A. B! C?'') = [str ''A.'', str ''B!'', str ''C?''] \<and>
   simple_sentencize (str ''no end'') = [] \<and>
   ((\<forall>c\<in>set t. \<not> is_terminal c) \<longrightarrow>
      simple_sentencize t = [] \<and> simple_sentencize (s @ t) = simple_sentencize s)"
proof (intro conjI impI)
  show "simple_sentencize (str ''A. B! C?'') = [str ''A.'', str ''B!'', str ''C?'']"
    by (simp add: simple_sentencize_def py_strip_def str_def is_space_def is_terminal_def)
  show "simple_sentencize (str ''no end'') = []"
    by (simp add: simple_sentencize_def py_strip_def str_def is_space_def is_terminal_def)
  assume tail: "\<forall>c\<in>set t. \<not> is_terminal c"
  then show "simple_sentencize t = []"
    by (simp add: simple_sentencize_def findall_from_no_terminal)
  from tail show "simple_sentencize (s @ t) = simple_sentencize s"
    by (simp add: simple_sentencize_def findall_from_trailing)
qed

theorem simple_sentencize_cases_witness:
  "list_all (\<lambda>c. \<not> is_terminal c) (str '' and a tail'') \<and>
   simple_sentencize (str '' and a tail'') = [] \<and>
   simple_sentencize (str ''A. B! C?'' @ str '' and a tail'') = [str ''A.'', str ''B!'', str ''C?''] \<and>
   simple_sentencize (str ''A. B! C? and a tail'') = [str ''A.'', str ''B!'', str ''C?'']"
proof -
  have tail: "\<forall>c\<in>set (str '' and a tail''). \<not> is_terminal c"
    by (simp add: str_def is_terminal_def)
  have "str ''A. B! C?'' @ str '' and a tail'' = str ''A. B! C? and a tail''"
    by (simp add: str_def)
  with simple_sentencize_cases [of "str '' and a tail''" "str ''A. B! C?''"] tail
  show ?thesis by (simp add: list_all_iff)
qed

section \<open>The claim about the output directory\<close>

text \<open>
  C8. The name of the output directory is a function of the model identifier, the
  prefix and the prefix description alone: two runs of \<open>main\<close> that agree on these (and
  on \<open>output_dir\<close>) return the same output path, whatever their tables and models are.
  Without a description and with a non-empty prefix, the name ends in the first 8
  characters of the digest of the prefix.
\<close>

theorem output_path_deterministic:
  "(main sha256_hex py_str model (Some df) output_dir model_name prefix prefix_description =
      Inr (path, dataset) \<and>
    main sha256_hex py_str' model' (Some df') output_dir model_name prefix prefix_description =
      Inr (path', dataset') \<longrightarrow>
    path = path' \<and>
    path = (output_dir, output_name sha256_hex model_name prefix prefix_description)) \<and>
   (prefix \<noteq> [] \<and> (prefix_description = None \<or> prefix_description = Some []) \<and>
    8 \<le> length (sha256_hex prefix) \<longrightarrow>
    output_name sha256_hex model_name prefix prefix_description =
      str ''emb__'' @ py_replace_char 47 (str ''__'') model_name @ str ''_'' @
      hash_prompt sha256_hex prefix \<and>
    length (hash_prompt sha256_hex prefix) = 8 \<and>
    hash_prompt sha256_hex prefix = take 8 (sha256_hex prefix)) \<and>
   (prefix \<noteq> [] \<and> prefix_description = Some d \<and> d \<noteq> [] \<longrightarrow>
    output_name sha256_hex model_name prefix prefix_description =
      str ''emb__'' @ py_replace_char 47 (str ''__'') model_name @ str ''_'' @ d) \<and>
   (prefix = [] \<longrightarrow>
    output_name sha256_hex model_name prefix prefix_description =
      str ''emb__'' @ py_replace_char 47 (str ''__'') model_name)"
  by (auto simp add: main_def output_name_def hash_prompt_def Let_def)

theorem output_path_deterministic_witness:
  "main example_digest (\<lambda>i. i) fragile_model (Some []) () (str ''intfloat/e5'') (str ''Query: '') None =
     Inr (((), str ''emb__intfloat__e5_597369d1''), []) \<and>
   main example_digest (\<lambda>i. i) word_count_model (Some [(str ''7'', None)]) ()
     (str ''intfloat/e5'') (str ''Query: '') None =
     Inr (((), str ''emb__intfloat__e5_597369d1''), []) \<and>
   8 \<le> length (example_digest (str ''Query: '')) \<and>
   output_name example_digest (str ''intfloat/e5'') (str ''Query: '') None =
     str ''emb__intfloat__e5_597369d1'' \<and>
   output_name example_digest (str ''intfloat/e5'') (str ''Query: '') (Some (str ''query'')) =
     str ''emb__intfloat__e5_query'' \<and>
   output_name example_digest (str ''intfloat/e5'') [] (Some (str ''query'')) =
     str ''emb__intfloat__e5''"
proof -
  have run1: "main example_digest (\<lambda>i. i) fragile_model (Some []) () (str ''intfloat/e5'')
      (str ''Query: '') None = Inr (((), str ''emb__intfloat__e5_597369d1''), [])"
    by (simp add: main_def output_name_def hash_prompt_def example_digest_def
        py_replace_char_def str_def)
  have run2: "main example_digest (\<lambda>i. i) word_count_model (Some [(str ''7'', None)]) ()
      (str ''intfloat/e5'') (str ''Query: '') None = Inr (((), str ''emb__intfloat__e5_597369d1''), [])"
    by (simp add: main_def output_name_def hash_prompt_def example_digest_def
        py_replace_char_def preprocess_def str_def)
  have len: "8 \<le> length (example_digest (str ''Query: ''))"
    by (simp add: example_digest_def str_def)
  have ne: "str ''Query: '' \<noteq> []" "str ''query'' \<noteq> []" by (simp_all add: str_def)
  note inst = output_path_deterministic [where sha256_hex = example_digest
      and model_name = "str ''intfloat/e5''"]
  have a: "output_name example_digest (str ''intfloat/e5'') (str ''Query: '') None =
      str ''emb__intfloat__e5_597369d1''"
    using inst [where prefix = "str ''Query: ''" and prefix_description = None,
        THEN conjunct2, THEN conjunct1] ne len
    by (simp add: hash_prompt_def example_digest_def py_replace_char_def str_def)
  have b: "output_name example_digest (str ''intfloat/e5'') (str ''Query: '') (Some (str ''query'')) =
      str ''emb__intfloat__e5_query''"
    using inst [where prefix = "str ''Query: ''" and prefix_description = "Some (str ''query'')"
        and d = "str ''query''", THEN conjunct2, THEN conjunct2, THEN conjunct1] ne
    by (simp add: py_replace_char_def str_def)
  have c: "output_name example_digest (str ''intfloat/e5'') [] (Some (str ''query'')) =
      str ''emb__intfloat__e5''"
    using inst [where prefix = "[]" and prefix_description = "Some (str ''query'')",
        THEN conjunct2, THEN conjunct2, THEN conjunct2]
    by (simp add: py_replace_char_def str_def)
  from run1 run2 len a b c show ?thesis by simp
qed

section \<open>The claims about the orchestrator\<close>

lemma embed_loop_acc:
  "embed_loop model prefix chunks acc = Inr embeddings \<longleftrightarrow>
   (\<exists>es. embeddings = acc @ es \<and>
      list_all2 (\<lambda>c e. encode model (chunk_input prefix c) = Inr e) chunks es)"
proof (induction chunks arbitrary: acc)
  case Nil
  show ?case by auto
next
  case (Cons c cs)
  show ?case
  proof (cases "encode model (chunk_input prefix c)")
    case (Inl e)
    then show ?thesis by (simp add: list_all2_Cons1)
  next
    case (Inr emb)
    have "(\<exists>es. embeddings = (acc @ [emb]) @ es \<and>
             list_all2 (\<lambda>c e. encode model (chunk_input prefix c) = Inr e) cs es) \<longleftrightarrow>
          (\<exists>es. embeddings = acc @ es \<and>
             list_all2 (\<lambda>c e. encode model (chunk_input prefix c) = Inr e) (c # cs) es)"
      using Inr by (auto simp add: list_all2_Cons1)
    with Cons.IH [of "acc @ [emb]"] Inr show ?thesis by simp
  qed
qed

text \<open>
  C10. With a non-empty prefix the string handed to \<open>encode\<close> for a chunk is the prefix,
  one space and the chunk, so the default prefix \<open>'Query: '\<close> gives two spaces before the
  chunk; with the empty prefix it is the chunk. The inference loop returns the vectors
  \<open>embeddings\<close> exactly when \<open>encode\<close> returns them on these strings, chunk by chunk.
\<close>

theorem chunk_input_prefix_space:
  "(prefix \<noteq> [] \<longrightarrow> chunk_input prefix ch = prefix @ str '' '' @ ch) \<and>
   (prefix = [] \<longrightarrow> chunk_input prefix ch = ch) \<and>
   chunk_input (str ''Query: '') ch = str ''Query:  '' @ ch \<and>
   (embed_loop model prefix chunks [] = Inr embeddings \<longleftrightarrow>
      list_all2 (\<lambda>c e. encode model (chunk_input prefix c) = Inr e) chunks embeddings)"
  by (simp add: chunk_input_def embed_loop_acc) (simp add: str_def)

theorem chunk_input_prefix_space_witness:
  "str ''Query: '' \<noteq> [] \<and>
   chunk_input (str ''Query: '') (str ''One.'') = str ''Query:  One.'' \<and>
   chunk_input [] (str ''One.'') = str ''One.'' \<and>
   embed_loop fragile_model (str ''Query: '') [str ''One.'', str ''Three.''] [] = Inr [12, 14] \<and>
   list_all2 (\<lambda>c e. encode fragile_model (chunk_input (str ''Query: '') c) = Inr e)
     [str ''One.'', str ''Three.''] [12, 14]"
proof -
  have ne: "str ''Query: '' \<noteq> []" by (simp add: str_def)
  note inst = chunk_input_prefix_space [where ch = "str ''One.''"]
  have a: "chunk_input (str ''Query: '') (str ''One.'') = str ''Query:  One.''"
    using inst [where prefix = "str ''Query: ''", THEN conjunct1] ne by (simp add: str_def)
  have b: "chunk_input [] (str ''One.'') = str ''One.''"
    using inst [where prefix = "[]", THEN conjunct2, THEN conjunct1] by simp
  have run: "embed_loop fragile_model (str ''Query: '') [str ''One.'', str ''Three.''] [] =
      Inr [12, 14]"
    by (simp add: chunk_input_def fragile_model_def str_def)
  then have c: "list_all2 (\<lambda>c e. encode fragile_model (chunk_input (str ''Query: '') c) = Inr e)
      [str ''One.'', str ''Three.''] [12, 14]"
    using inst [where prefix = "str ''Query: ''" and model = fragile_model
        and chunks = "[str ''One.'', str ''Three.'']" and embeddings = "[12, 14]",
        THEN conjunct2, THEN conjunct2, THEN conjunct2]
    by simp
  from ne a b run c show ?thesis by simp
qed

lemma embed_loop_ok:
  "\<not> list_ex (\<lambda>c. isl (encode model (chunk_input prefix c))) chunks \<Longrightarrow>
   embed_loop model prefix chunks acc =
     Inr (acc @ map (\<lambda>c. projr (encode model (chunk_input prefix c))) chunks)"
proof (induction chunks arbitrary: acc)
  case Nil
  show ?case by simp
next
  case (Cons c cs)
  then obtain emb where "encode model (chunk_input prefix c) = Inr emb"
    by (cases "encode model (chunk_input prefix c)") simp_all
  with Cons show ?case by simp
qed

lemma embed_loop_fail:
  "list_ex (\<lambda>c. isl (encode model (chunk_input prefix c))) chunks \<Longrightarrow>
   \<exists>e. embed_loop model prefix chunks acc = Inl e"
proof (induction chunks arbitrary: acc)
  case Nil
  then show ?case by simp
next
  case (Cons c cs)
  then show ?case by (cases "encode model (chunk_input prefix c)") simp_all
qed

lemma main_loop_spec:
  "main_loop py_str model max_tokens prefix rows acc =
     acc @ List.map_filter (spec_article py_str model max_tokens prefix) rows"
proof (induction rows arbitrary: acc)
  case Nil
  show ?case by (simp add: List.map_filter_simps)
next
  case (Cons row rows)
  obtain aid cell where row: "row = (aid, cell)" by (cases row)
  show ?case
  proof (cases "preprocess model max_tokens cell")
    case (Inl e)
    then show ?thesis by (simp add: row Cons.IH List.map_filter_simps spec_article_def)
  next
    case (Inr chunks)
    show ?thesis
    proof (cases "list_ex (\<lambda>c. isl (encode model (chunk_input prefix c))) chunks")
      case True
      then obtain e where "embed_loop model prefix chunks [] = Inl e"
        using embed_loop_fail by blast
      with Inr True show ?thesis
        by (simp add: row Cons.IH List.map_filter_simps spec_article_def)
    next
      case False
      then have "embed_loop model prefix chunks [] =
          Inr ([] @ map (\<lambda>c. projr (encode model (chunk_input prefix c))) chunks)"
        by (rule embed_loop_ok)
      with Inr False show ?thesis
        by (simp add: row Cons.IH List.map_filter_simps spec_article_def)
    qed
  qed
qed

lemma map_filter_skip:
  "f x = None \<Longrightarrow> List.map_filter f (xs @ x # ys) = List.map_filter f (xs @ ys)"
  by (simp add: List.map_filter_def)

lemma spec_article_None_iff:
  "spec_article py_str model max_tokens prefix (aid, cell) = None \<longleftrightarrow>
     (\<exists>e. preprocess model max_tokens cell = Inl e) \<or>
     (\<exists>chunks c e. preprocess model max_tokens cell = Inr chunks \<and> c \<in> set chunks \<and>
        encode model (chunk_input prefix c) = Inl e)"
proof (cases "preprocess model max_tokens cell")
  case (Inl e)
  then show ?thesis by (simp add: spec_article_def)
next
  case (Inr chunks)
  have "list_ex (\<lambda>c. isl (encode model (chunk_input prefix c))) chunks \<longleftrightarrow>
        (\<exists>c e. c \<in> set chunks \<and> encode model (chunk_input prefix c) = Inl e)"
    by (auto simp add: list_ex_iff isl_def)
  with Inr show ?thesis by (simp add: spec_article_def)
qed

text \<open>
  C9. The rows are processed in input order and the output is, in that order, what
  each row contributes: one article, or nothing. A row contributes nothing exactly when
  its preprocessing raises or the encoder raises on one of its chunks, whatever was
  embedded before; the output is then the one of the table without that row, so the
  other records appear as they would without it, in their order, and nothing stands in
  for the skipped one.
\<close>

theorem main_loop_skips_failed_records:
  "main_loop py_str model max_tokens prefix rows [] =
     List.map_filter (spec_article py_str model max_tokens prefix) rows \<and>
   (spec_article py_str model max_tokens prefix (aid, cell) = None \<longleftrightarrow>
      (\<exists>e. preprocess model max_tokens cell = Inl e) \<or>
      (\<exists>chunks c e. preprocess model max_tokens cell = Inr chunks \<and> c \<in> set chunks \<and>
         encode model (chunk_input prefix c) = Inl e)) \<and>
   ((\<exists>e. preprocess model max_tokens cell = Inl e) \<or>
    (\<exists>chunks c e. preprocess model max_tokens cell = Inr chunks \<and> c \<in> set chunks \<and>
       encode model (chunk_input prefix c) = Inl e) \<longrightarrow>
    main_loop py_str model max_tokens prefix (before @ (aid, cell) # after) [] =
      main_loop py_str model max_tokens prefix (before @ after) [])"
proof (intro conjI impI)
  show "main_loop py_str model max_tokens prefix rows [] =
      List.map_filter (spec_article py_str model max_tokens prefix) rows"
    by (simp add: main_loop_spec)
  show "spec_article py_str model max_tokens prefix (aid, cell) = None \<longleftrightarrow>
      (\<exists>e. preprocess model max_tokens cell = Inl e) \<or>
      (\<exists>chunks c e. preprocess model max_tokens cell = Inr chunks \<and> c \<in> set chunks \<and>
         encode model (chunk_input prefix c) = Inl e)"
    by (rule spec_article_None_iff)
  assume "(\<exists>e. preprocess model max_tokens cell = Inl e) \<or>
    (\<exists>chunks c e. preprocess model max_tokens cell = Inr chunks \<and> c \<in> set chunks \<and>
       encode model (chunk_input prefix c) = Inl e)"
  then have "spec_article py_str model max_tokens prefix (aid, cell) = None"
    by (simp only: spec_article_None_iff)
  then show "main_loop py_str model max_tokens prefix (before @ (aid, cell) # after) [] =
      main_loop py_str model max_tokens prefix (before @ after) []"
    by (simp add: main_loop_spec map_filter_skip)
qed

lemma preprocess_examples:
  "preprocess fragile_model 3 (Some (str ''One.'')) = Inr [str ''One.'']"
  "preprocess fragile_model 3 (Some (str ''Fine. Two.'')) = Inr [str ''Fine.'', str ''Two.'']"
  "preprocess fragile_model 3 (Some (str ''Three.'')) = Inr [str ''Three.'']"
  "preprocess fragile_model 3 None = Inl AttributeError"
  by (simp_all add: preprocess_def clean_whitespace_def simple_sentencize_def chunk_sentences_def
      py_replace_char_def py_strip_def fragile_model_def word_count_def py_split_def
      is_punct_def is_terminal_def is_space_def str_def)

theorem main_loop_skips_failed_records_witness:
  "preprocess fragile_model 3 (Some (str ''Fine. Two.'')) = Inr [str ''Fine.'', str ''Two.''] \<and>
   encode fragile_model (chunk_input (str ''Query: '') (str ''Fine.'')) = Inr 13 \<and>
   encode fragile_model (chunk_input (str ''Query: '') (str ''Two.'')) = Inl ModelError \<and>
   main_loop (\<lambda>i. i) fragile_model 3 (str ''Query: '')
     [(str ''1'', Some (str ''One.'')), (str ''2'', Some (str ''Fine. Two.'')),
      (str ''3'', Some (str ''Three.''))] [] =
     [\<lparr>article_id = str ''1'', chunk = [str ''One.''], embedding = [12]\<rparr>,
      \<lparr>article_id = str ''3'', chunk = [str ''Three.''], embedding = [14]\<rparr>] \<and>
   main_loop (\<lambda>i. i) fragile_model 3 (str ''Query: '')
     [(str ''1'', Some (str ''One.'')), (str ''3'', Some (str ''Three.''))] [] =
     [\<lparr>article_id = str ''1'', chunk = [str ''One.''], embedding = [12]\<rparr>,
      \<lparr>article_id = str ''3'', chunk = [str ''Three.''], embedding = [14]\<rparr>] \<and>
   preprocess fragile_model 3 None = Inl AttributeError \<and>
   main_loop (\<lambda>i. i) fragile_model 3 (str ''Query: '')
     [(str ''4'', None), (str ''1'', Some (str ''One.''))] [] =
     [\<lparr>article_id = str ''1'', chunk = [str ''One.''], embedding = [12]\<rparr>]"
proof -
  have enc1: "encode fragile_model (chunk_input (str ''Query: '') (str ''Fine.'')) = Inr 13"
    by (simp add: chunk_input_def fragile_model_def str_def)
  have enc2: "encode fragile_model (chunk_input (str ''Query: '') (str ''Two.'')) = Inl ModelError"
    by (simp add: chunk_input_def fragile_model_def str_def)
  have emb1: "embed_loop fragile_model (str ''Query: '') [str ''One.''] [] = Inr [12]"
    by (simp add: chunk_input_def fragile_model_def str_def)
  have emb3: "embed_loop fragile_model (str ''Query: '') [str ''Three.''] [] = Inr [14]"
    by (simp add: chunk_input_def fragile_model_def str_def)
  have two: "main_loop (\<lambda>i. i) fragile_model 3 (str ''Query: '')
      [(str ''1'', Some (str ''One.'')), (str ''3'', Some (str ''Three.''))] [] =
      [\<lparr>article_id = str ''1'', chunk = [str ''One.''], embedding = [12]\<rparr>,
       \<lparr>article_id = str ''3'', chunk = [str ''Three.''], embedding = [14]\<rparr>]"
    by (simp add: preprocess_examples emb1 emb3 del: embed_loop.simps)
  have one: "main_loop (\<lambda>i. i) fragile_model 3 (str ''Query: '')
      [(str ''1'', Some (str ''One.''))] [] =
      [\<lparr>article_id = str ''1'', chunk = [str ''One.''], embedding = [12]\<rparr>]"
    by (simp add: preprocess_examples emb1 del: embed_loop.simps)
  have "\<exists>chunks c e. preprocess fragile_model 3 (Some (str ''Fine. Two.'')) = Inr chunks \<and>
      c \<in> set chunks \<and> encode fragile_model (chunk_input (str ''Query: '') c) = Inl e"
    using preprocess_examples(2) enc2 by auto
  then have "main_loop (\<lambda>i. i) fragile_model 3 (str ''Query: '')
      ([(str ''1'', Some (str ''One.''))] @ (str ''2'', Some (str ''Fine. Two.'')) #
       [(str ''3'', Some (str ''Three.''))]) [] =
      main_loop (\<lambda>i. i) fragile_model 3 (str ''Query: '')
      ([(str ''1'', Some (str ''One.''))] @ [(str ''3'', Some (str ''Three.''))]) []"
    using main_loop_skips_failed_records [where py_str = "\<lambda>i. i" and model = fragile_model
        and max_tokens = 3 and prefix = "str ''Query: ''"
        and aid = "str ''2''" and cell = "Some (str ''Fine. Two.'')"
        and before = "[(str ''1'', Some (str ''One.''))]"
        and after = "[(str ''3'', Some (str ''Three.''))]", THEN conjunct2, THEN conjunct2]
    by blast
  then have three: "main_loop (\<lambda>i. i) fragile_model 3 (str ''Query: '')
      [(str ''1'', Some (str ''One.'')), (str ''2'', Some (str ''Fine. Two.'')),
       (str ''3'', Some (str ''Three.''))] [] =
      [\<lparr>article_id = str ''1'', chunk = [str ''One.''], embedding = [12]\<rparr>,
       \<lparr>article_id = str ''3'', chunk = [str ''Three.''], embedding = [14]\<rparr>]"
    using two by simp
  have "\<exists>e. preprocess fragile_model 3 None = Inl e"
    using preprocess_examples(4) by simp
  then have "main_loop (\<lambda>i. i) fragile_model 3 (str ''Query: '')
      ([] @ (str ''4'', None) # [(str ''1'', Some (str ''One.''))]) [] =
      main_loop (\<lambda>i. i) fragile_model 3 (str ''Query: '')
      ([] @ [(str ''1'', Some (str ''One.''))]) []"
    using main_loop_skips_failed_records [where py_str = "\<lambda>i. i" and model = fragile_model
        and max_tokens = 3 and prefix = "str ''Query: ''"
        and aid = "str ''4''" and cell = None and before = "[]"
        and after = "[(str ''1'', Some (str ''One.''))]", THEN conjunct2, THEN conjunct2]
    by blast
  then have four: "main_loop (\<lambda>i. i) fragile_model 3 (str ''Query: '')
      [(str ''4'', None), (str ''1'', Some (str ''One.''))] [] =
      [\<lparr>article_id = str ''1'', chunk = [str ''One.''], embedding = [12]\<rparr>]"
    using one by simp
  from preprocess_examples(2,4) enc1 enc2 two three four show ?thesis by simp
qed

section \<open>Facts about the text normaliser\<close>

lemma punct_not_space: "is_punct c \<Longrightarrow> \<not> is_space c"
  by (auto simp add: is_punct_def is_space_def str_def)

lemma spaced_Cons_nonspace: "\<not> is_space c \<Longrightarrow> spaced (c # cs) = spaced cs"
  by (cases cs) simp_all

lemma spaced_tl: "spaced (c # cs) \<Longrightarrow> spaced cs"
  by (cases cs) simp_all

lemma spaced_space_next: "spaced (c # d # cs) \<Longrightarrow> is_space c \<Longrightarrow> \<not> is_space d"
  by simp

lemma spaced_space_32: "spaced (c # cs) \<Longrightarrow> is_space c \<Longrightarrow> c = 32"
  by (cases cs) simp_all

lemma tight_Cons_nonspace: "\<not> is_space c \<Longrightarrow> tight (c # cs) = tight cs"
  by (cases cs) simp_all

lemma tight_tl: "tight (c # cs) \<Longrightarrow> tight cs"
  by (cases cs) simp_all

lemma dropWhile_spaced: "spaced (c # cs) \<Longrightarrow> is_space c \<Longrightarrow> dropWhile is_space cs = cs"
  by (cases cs) simp_all

lemma takeWhile_spaced: "spaced (c # cs) \<Longrightarrow> is_space c \<Longrightarrow> takeWhile is_space cs = []"
  by (cases cs) simp_all

text \<open>The first substitution returns a spaced text and leaves a spaced text as it is.\<close>

lemma sub_spaces_nonspace_hd:
  "sub_spaces (dropWhile is_space cs) = [] \<or>
   (\<exists>d ds. sub_spaces (dropWhile is_space cs) = d # ds \<and> \<not> is_space d)"
proof (cases "dropWhile is_space cs")
  case Nil
  show ?thesis unfolding Nil by simp
next
  case (Cons d ds)
  then have "\<not> is_space d" using hd_dropWhile [of is_space cs] by auto
  then show ?thesis unfolding Cons by simp
qed

lemma spaced_sub_spaces: "spaced (sub_spaces t)"
proof (induction t rule: sub_spaces.induct)
  case 1
  show ?case by simp
next
  case (2 c cs)
  show ?case
  proof (cases "is_space c")
    case True
    with 2 have ih: "spaced (sub_spaces (dropWhile is_space cs))" by simp
    from sub_spaces_nonspace_hd [of cs] show ?thesis
    proof
      assume "sub_spaces (dropWhile is_space cs) = []"
      with True show ?thesis by (simp add: str_space)
    next
      assume "\<exists>d ds. sub_spaces (dropWhile is_space cs) = d # ds \<and> \<not> is_space d"
      then obtain d ds where "sub_spaces (dropWhile is_space cs) = d # ds" "\<not> is_space d"
        by blast
      with True ih show ?thesis by (simp add: str_space)
    qed
  next
    case False
    with 2 show ?thesis by (simp add: spaced_Cons_nonspace)
  qed
qed

lemma sub_spaces_spaced: "spaced t \<Longrightarrow> sub_spaces t = t"
proof (induction t)
  case Nil
  show ?case by simp
next
  case (Cons c cs)
  have ih: "sub_spaces cs = cs" using Cons spaced_tl by blast
  show ?case
  proof (cases "is_space c")
    case True
    with Cons.prems have "c = 32" "dropWhile is_space cs = cs"
      by (simp_all add: spaced_space_32 dropWhile_spaced)
    with True ih show ?thesis by (simp add: str_space)
  next
    case False
    with ih show ?thesis by simp
  qed
qed

text \<open>On a spaced text the second substitution drops the space before a mark.\<close>

lemma sub_space_punct_nonspace:
  "\<not> is_space c \<Longrightarrow> sub_space_punct (c # cs) = c # sub_space_punct cs"
  by simp

lemma sub_space_punct_spaced:
  "spaced (c # p # rest) \<Longrightarrow> is_space c \<Longrightarrow>
   sub_space_punct (c # p # rest) =
     (if is_punct p then p # sub_space_punct rest else c # p # sub_space_punct rest)"
  by simp

lemma spaced_sub_space_punct: "spaced t \<Longrightarrow> spaced (sub_space_punct t)"
proof (induction t rule: induct_list012)
  case 1
  show ?case by simp
next
  case (2 c)
  then show ?case by simp
next
  case (3 c p rest)
  have sp_rest: "spaced rest" "spaced (p # rest)"
    using 3(3) spaced_tl by blast+
  show ?case
  proof (cases "is_space c")
    case True
    then have np: "\<not> is_space p" using 3(3) by simp
    have "spaced (sub_space_punct rest)" using 3(1) sp_rest by simp
    then have "spaced (p # sub_space_punct rest)" using np by (simp add: spaced_Cons_nonspace)
    moreover have "c = 32" using 3(3) True by simp
    ultimately show ?thesis
      using sub_space_punct_spaced [OF 3(3) True] np by simp
  next
    case False
    have "spaced (sub_space_punct (p # rest))" using 3(2) sp_rest by simp
    then show ?thesis
      by (simp only: sub_space_punct_nonspace [OF False] spaced_Cons_nonspace [OF False])
  qed
qed

lemma tight_sub_space_punct: "spaced t \<Longrightarrow> tight (sub_space_punct t)"
proof (induction t rule: induct_list012)
  case 1
  show ?case by simp
next
  case (2 c)
  then show ?case by simp
next
  case (3 c p rest)
  have sp_rest: "spaced rest" "spaced (p # rest)"
    using 3(3) spaced_tl by blast+
  show ?case
  proof (cases "is_space c")
    case True
    then have np: "\<not> is_space p" using 3(3) by simp
    have "tight (sub_space_punct rest)" using 3(1) sp_rest by simp
    then have "tight (p # sub_space_punct rest)" using np by (simp add: tight_Cons_nonspace)
    then show ?thesis
      using sub_space_punct_spaced [OF 3(3) True] by simp
  next
    case False
    have "tight (sub_space_punct (p # rest))" using 3(2) sp_rest by simp
    then show ?thesis
      by (simp only: sub_space_punct_nonspace [OF False] tight_Cons_nonspace [OF False])
  qed
qed

lemma sub_space_punct_fixed: "spaced t \<Longrightarrow> tight t \<Longrightarrow> sub_space_punct t = t"
proof (induction t rule: induct_list012)
  case 1
  show ?case by simp
next
  case (2 c)
  show ?case by simp
next
  case (3 c p rest)
  have rest: "sub_space_punct rest = rest"
    using 3 spaced_tl tight_tl by blast
  have prest: "sub_space_punct (p # rest) = p # rest"
    using 3 spaced_tl tight_tl by blast
  show ?case
  proof (cases "is_space c")
    case True
    then have "\<not> is_punct p" using 3(4) by simp
    then show ?thesis using sub_space_punct_spaced [OF 3(3) True] rest by simp
  next
    case False
    show ?thesis by (simp only: sub_space_punct_nonspace [OF False] prest)
  qed
qed

text \<open>The third substitution leaves a spaced text as it is.\<close>

lemma sub_punct_space_spaced: "spaced t \<Longrightarrow> sub_punct_space t = t"
proof (induction t rule: induct_list012)
  case 1
  show ?case by simp
next
  case (2 c)
  show ?case by simp
next
  case (3 c d cs)
  have cs: "sub_punct_space cs = cs" using 3 spaced_tl by blast
  have dcs: "sub_punct_space (d # cs) = d # cs" using 3 spaced_tl by blast
  show ?case
  proof (cases "is_punct c \<and> is_space d")
    case True
    have "spaced (d # cs)" using 3(3) spaced_tl by blast
    with True have "d = 32" "dropWhile is_space cs = cs"
      by (simp_all add: spaced_space_32 dropWhile_spaced)
    with True cs show ?thesis by (simp add: str_space)
  next
    case False
    with dcs show ?thesis by auto
  qed
qed

text \<open>Both properties pass to the parts of a text, so \<open>strip\<close> keeps them.\<close>

lemma spaced_append: "spaced (a @ b) \<Longrightarrow> spaced a \<and> spaced b"
proof (induction a rule: induct_list012)
  case 1
  then show ?case by simp
next
  case (2 c)
  then show ?case by (cases b) simp_all
next
  case (3 c d cs)
  then show ?case by simp
qed

lemma tight_append: "tight (a @ b) \<Longrightarrow> tight a \<and> tight b"
proof (induction a rule: induct_list012)
  case 1
  then show ?case by simp
next
  case (2 c)
  then show ?case by (cases b) simp_all
next
  case (3 c d cs)
  then show ?case by simp
qed

lemma py_strip_parts: "\<exists>a b. t = a @ py_strip t @ b"
proof -
  have "t = takeWhile is_space t @ dropWhile is_space t" by simp
  moreover have "dropWhile is_space t =
      rev (dropWhile is_space (rev (dropWhile is_space t))) @
      rev (takeWhile is_space (rev (dropWhile is_space t)))"
    by (metis rev_append rev_rev_ident takeWhile_dropWhile_id)
  ultimately show ?thesis unfolding py_strip_def by metis
qed

lemma spaced_py_strip: "spaced t \<Longrightarrow> spaced (py_strip t)"
  using py_strip_parts [of t] spaced_append by metis

lemma tight_py_strip: "tight t \<Longrightarrow> tight (py_strip t)"
  using py_strip_parts [of t] tight_append by metis

lemma dropWhile_rev_stripped:
  assumes "v = [] \<or> \<not> P (hd v)"
  shows "dropWhile P (rev (dropWhile P (rev v))) = rev (dropWhile P (rev v))"
proof (cases v)
  case Nil
  then show ?thesis by simp
next
  case (Cons x xs)
  with assms have nx: "\<not> P x" by simp
  have "\<exists>zs. dropWhile P (rev xs @ [x]) = zs @ [x]"
    using nx by (simp add: dropWhile_append)
  then obtain zs where zs: "dropWhile P (rev xs @ [x]) = zs @ [x]" by blast
  have "rev v = rev xs @ [x]" using Cons by simp
  then have "rev (dropWhile P (rev v)) = x # rev zs" using zs by simp
  then show ?thesis using nx by simp
qed

lemma py_strip_idem: "py_strip (py_strip t) = py_strip t"
proof -
  have "dropWhile is_space t = [] \<or> \<not> is_space (hd (dropWhile is_space t))"
    using hd_dropWhile [of is_space t] by blast
  then show ?thesis
    unfolding py_strip_def by (simp only: dropWhile_rev_stripped rev_rev_ident dropWhile_idem)
qed

lemma spaced_all: "spaced t \<Longrightarrow> c \<in> set t \<Longrightarrow> is_space c \<Longrightarrow> c = 32"
proof (induction t)
  case Nil
  then show ?case by simp
next
  case (Cons d ds)
  show ?case
  proof (cases "c = d")
    case True
    with Cons.prems show ?thesis using spaced_space_32 by blast
  next
    case False
    with Cons.prems have "c \<in> set ds" by simp
    moreover have "spaced ds" using Cons.prems(1) spaced_tl by blast
    ultimately show ?thesis using Cons.IH Cons.prems(3) by blast
  qed
qed

lemma replace_absent: "old \<notin> set t \<Longrightarrow> py_replace_char old new t = t"
  by (induction t) (auto simp add: py_replace_char_def)

lemma replace_newline_spaced: "spaced t \<Longrightarrow> py_replace_char 10 (str '' '') t = t"
proof (rule replace_absent)
  assume "spaced t"
  have "is_space 10" by (simp add: is_space_def)
  with \<open>spaced t\<close> show "10 \<notin> set t" using spaced_all [of t 10] by auto
qed

text \<open>The text \<open>clean_whitespace\<close> returns is spaced, tight and stripped.\<close>

lemma clean_whitespace_shape:
  "\<exists>u. clean_whitespace s = py_strip u \<and> spaced u \<and> tight u"
proof -
  define u where "u = sub_space_punct (sub_spaces (py_replace_char 10 (str '' '') s))"
  have su: "spaced u" unfolding u_def by (rule spaced_sub_space_punct) (rule spaced_sub_spaces)
  have tu: "tight u" unfolding u_def by (rule tight_sub_space_punct) (rule spaced_sub_spaces)
  have "clean_whitespace s = py_strip (sub_punct_space u)"
    by (simp add: clean_whitespace_def u_def)
  then have "clean_whitespace s = py_strip u" using su by (simp add: sub_punct_space_spaced)
  with su tu show ?thesis by blast
qed

lemma clean_whitespace_fixed:
  assumes "spaced u" "tight u"
  shows "clean_whitespace (py_strip u) = py_strip u"
proof -
  have s: "spaced (py_strip u)" and t: "tight (py_strip u)"
    using assms by (simp_all add: spaced_py_strip tight_py_strip)
  show ?thesis
    by (simp add: clean_whitespace_def replace_newline_spaced [OF s] sub_spaces_spaced [OF s]
        sub_space_punct_fixed [OF s t] sub_punct_space_spaced [OF s] py_strip_idem)
qed

section \<open>The claim about the text normaliser\<close>

text \<open>
  C7. \<open>clean_whitespace\<close> is idempotent: cleaning a cleaned text returns it unchanged,
  for every string. The function is total (each of its three substitutions terminates
  on every string), and on the empty string it returns the empty string.
\<close>

theorem clean_whitespace_idempotent:
  "clean_whitespace (clean_whitespace s) = clean_whitespace s \<and> clean_whitespace [] = []"
proof
  obtain u where "clean_whitespace s = py_strip u" "spaced u" "tight u"
    using clean_whitespace_shape by blast
  then show "clean_whitespace (clean_whitespace s) = clean_whitespace s"
    using clean_whitespace_fixed by simp
  show "clean_whitespace [] = []"
    by (simp add: clean_whitespace_def py_replace_char_def py_strip_def)
qed

lemma clean_whitespace_example:
  "clean_whitespace (str '' Hello ,  world .  How are   you ?  '') = str ''Hello, world. How are you?''"
  by (simp add: clean_whitespace_def py_strip_def py_replace_char_def str_def is_space_def is_punct_def)

end
